theory Spec2Isabelle
  imports Main
begin

chapter \<open>The Parker Gemini GV6 driver: embedding\<close>

text \<open>
  The source is \<^verbatim>\<open>automate/instruments/parker.py\<close>, the class \<^verbatim>\<open>ParkerGV6\<close>.
  Python strings are modelled as \<^typ>\<open>string\<close> (lists of 8-bit characters: the wire
  protocol is ASCII), Python's unbounded integers as \<^typ>\<open>int\<close>, Python floats as
  IEEE binary64 values with round-to-nearest-even arithmetic, exceptions as the left
  summand of a result, and the effects on the serial line as a trace kept in the
  instrument's state.
\<close>

section \<open>Exceptions\<close>

datatype error = AttributeError | ValueError | OverflowError | ZeroDivisionError

section \<open>Characters and integers as text\<close>

definition CR :: char where
  "CR = CHR 0x0D"

definition LF :: char where
  "LF = CHR 0x0A"

definition digit_char :: "nat \<Rightarrow> char" where
  "digit_char d = ''0123456789'' ! (d mod 10)"

definition is_digit :: "char \<Rightarrow> bool" where
  "is_digit c = (c \<in> set ''0123456789'')"

definition digit_val :: "char \<Rightarrow> int" where
  "digit_val c = int (of_char c) - 48"

text \<open>The decimal digits of a natural number, most significant first.\<close>

fun str_nat :: "nat \<Rightarrow> string" where
  "str_nat n = (if n < 10 then [digit_char n] else str_nat (n div 10) @ [digit_char (n mod 10)])"

declare str_nat.simps [simp del]

text \<open>The decimal numeral of an integer, with a minus sign when it is negative.\<close>

definition decimal_int :: "int \<Rightarrow> string" where
  "decimal_int i = (if i < 0 then CHR ''-'' # str_nat (nat (- i)) else str_nat (nat i))"

text \<open>
  Python's integers are unbounded, but CPython (3.11, and the later releases of the
  older lines) refuses to convert between an integer and a decimal text of more than
  \<^verbatim>\<open>sys.int_info.default_max_str_digits\<close> digits: the conversion raises ValueError.
\<close>

definition max_str_digits :: nat where
  "max_str_digits = 4300"

text \<open>The number of decimal digits of an integer (one for 0).\<close>

definition digit_count :: "int \<Rightarrow> nat" where
  "digit_count i = length (str_nat (nat \<bar>i\<bar>))"

text \<open>\<^verbatim>\<open>str(i)\<close> and \<^verbatim>\<open>"%d" % i\<close> for a Python integer.\<close>

definition str_int :: "int \<Rightarrow> error + string" where
  "str_int i = (if max_str_digits < digit_count i then Inl ValueError else Inr (decimal_int i))"

text \<open>
  \<^verbatim>\<open>int(text)\<close> on a text of the shape \<^verbatim>\<open>-?[0-9]+\<close>, the only shape the driver
  passes to it (the group matched by its regular expressions): its value, or
  ValueError when it has more than \<open>max_str_digits\<close> digits (leading zeros count, the
  sign does not). A text without any digit is no numeral.
\<close>

definition int_of_digits :: "string \<Rightarrow> int" where
  "int_of_digits ds = foldl (\<lambda>a c. 10 * a + digit_val c) 0 ds"

definition int_of_str :: "string \<Rightarrow> error + int" where
  "int_of_str t =
     (case t of
        [] \<Rightarrow> Inl ValueError
      | c # ds \<Rightarrow>
          if c = CHR ''-'' then
            (if ds = [] \<or> max_str_digits < length ds then Inl ValueError
             else Inr (- int_of_digits ds))
          else
            (if max_str_digits < length (c # ds) then Inl ValueError
             else Inr (int_of_digits (c # ds))))"

section \<open>Python floats: IEEE binary64\<close>

text \<open>
  \<open>Finite s m e\<close> is the value \<open>(-1)\<^sup>s * m * 2\<^sup>e\<close> in canonical form: a normal
  number has \<open>2\<^sup>5\<^sup>2 \<le> m < 2\<^sup>5\<^sup>3\<close> and \<open>-1074 \<le> e \<le> 971\<close>, a subnormal number and
  zero have \<open>m < 2\<^sup>5\<^sup>2\<close> and \<open>e = -1074\<close>. The sign is \<open>True\<close> for a negative value.
\<close>

datatype pyfloat = Finite bool nat int | Infinity bool | NaN

text \<open>The number of binary, or decimal, digits of a natural number (0 for 0).\<close>

fun num_digits :: "nat \<Rightarrow> nat \<Rightarrow> nat" where
  "num_digits b n = (if n = 0 \<or> b < 2 then 0 else Suc (num_digits b (n div b)))"

declare num_digits.simps [simp del]

text \<open>
  \<open>floor_log b p q\<close> is \<open>\<lfloor>log\<^sub>b (p / q)\<rfloor>\<close> for positive \<open>p\<close> and \<open>q\<close>: the
  difference \<open>d\<close> of the numbers of digits, or one less.
\<close>

definition floor_log_near :: "nat \<Rightarrow> nat \<Rightarrow> nat \<Rightarrow> int \<Rightarrow> int" where
  "floor_log_near b p q d = (if q * b ^ nat d \<le> p * b ^ nat (- d) then d else d - 1)"

definition floor_log :: "nat \<Rightarrow> nat \<Rightarrow> nat \<Rightarrow> int" where
  "floor_log b p q = floor_log_near b p q (int (num_digits b p) - int (num_digits b q))"

text \<open>The quotient \<open>n / d\<close> rounded to the nearest integer, ties to the even one.\<close>

definition round_half_even :: "nat \<Rightarrow> nat \<Rightarrow> nat" where
  "round_half_even n d =
     (if d < 2 * (n mod d) \<or> (2 * (n mod d) = d \<and> odd (n div d)) then n div d + 1
      else n div d)"

text \<open>
  \<open>round_binary64 s p q x\<close> rounds the exact value \<open>(-1)\<^sup>s * (p / q) * 2\<^sup>x\<close> to binary64,
  to nearest with ties to even; a value beyond the largest finite number becomes an
  infinity, a value below half the smallest subnormal becomes a signed zero.
  \<open>binary64_exponent\<close> is the exponent of the last of the 53 bits (not below that of
  the subnormal numbers), \<open>binary64_at\<close> rounds the mantissa at that exponent, and
  \<open>binary64_pack\<close> carries a mantissa rounded up to \<open>2\<^sup>5\<^sup>3\<close> and checks the range.
\<close>

definition binary64_exponent :: "nat \<Rightarrow> nat \<Rightarrow> int \<Rightarrow> int" where
  "binary64_exponent p q x =
     max (floor_log 2 (p * 2 ^ nat x) (q * 2 ^ nat (- x)) - 52) (- 1074)"

definition binary64_range :: "bool \<Rightarrow> nat \<Rightarrow> int \<Rightarrow> pyfloat" where
  "binary64_range s m e = (if 971 < e then Infinity s else Finite s m e)"

definition binary64_pack :: "bool \<Rightarrow> nat \<Rightarrow> int \<Rightarrow> pyfloat" where
  "binary64_pack s m e =
     (if m = 2 ^ 53 then binary64_range s (2 ^ 52) (e + 1) else binary64_range s m e)"

definition binary64_at :: "bool \<Rightarrow> nat \<Rightarrow> nat \<Rightarrow> int \<Rightarrow> int \<Rightarrow> pyfloat" where
  "binary64_at s p q x e =
     binary64_pack s (round_half_even (p * 2 ^ nat (x - e)) (q * 2 ^ nat (e - x))) e"

definition round_binary64 :: "bool \<Rightarrow> nat \<Rightarrow> nat \<Rightarrow> int \<Rightarrow> pyfloat" where
  "round_binary64 s p q x =
     (if p = 0 then Finite s 0 (- 1074)
      else binary64_at s p q x (binary64_exponent p q x))"

text \<open>\<^verbatim>\<open>float(i)\<close> for an integer: OverflowError beyond the range of a double.\<close>

fun finite_or_overflow :: "pyfloat \<Rightarrow> error + pyfloat" where
  "finite_or_overflow (Infinity s) = Inl OverflowError"
| "finite_or_overflow (Finite s m e) = Inr (Finite s m e)"
| "finite_or_overflow NaN = Inr NaN"

definition float_of_int :: "int \<Rightarrow> error + pyfloat" where
  "float_of_int i = finite_or_overflow (round_binary64 (i < 0) (nat \<bar>i\<bar>) 1 0)"

text \<open>
  The rational \<open>p / q\<close> as the nearest double: a decimal literal of the source text
  (\<^verbatim>\<open>0.00045\<close> is \<open>float_literal 45 100000\<close>), or the quotient \<^verbatim>\<open>p / q\<close> of two
  integers, which Python rounds correctly.
\<close>

definition float_literal :: "nat \<Rightarrow> nat \<Rightarrow> pyfloat" where
  "float_literal p q = round_binary64 False p q 0"

text \<open>\<^verbatim>\<open>int(x)\<close> for a float: truncation toward zero; NaN and the infinities raise.\<close>

definition signed :: "bool \<Rightarrow> int \<Rightarrow> int" where
  "signed s t = (if s then - t else t)"

fun int_of_float :: "pyfloat \<Rightarrow> error + int" where
  "int_of_float NaN = Inl ValueError"
| "int_of_float (Infinity s) = Inl OverflowError"
| "int_of_float (Finite s m e) = Inr (signed s ((int m * 2 ^ nat e) div 2 ^ nat (- e)))"

declare int_of_float.simps [simp del]

text \<open>\<^verbatim>\<open>x * y\<close> on floats. It never raises: an overflow gives an infinity.\<close>

fun float_mul :: "pyfloat \<Rightarrow> pyfloat \<Rightarrow> pyfloat" where
  "float_mul NaN y = NaN"
| "float_mul (Infinity s) NaN = NaN"
| "float_mul (Finite s m e) NaN = NaN"
| "float_mul (Infinity s) (Infinity t) = Infinity (s \<noteq> t)"
| "float_mul (Infinity s) (Finite t m e) = (if m = 0 then NaN else Infinity (s \<noteq> t))"
| "float_mul (Finite s m e) (Infinity t) = (if m = 0 then NaN else Infinity (s \<noteq> t))"
| "float_mul (Finite s m e) (Finite t n f) = round_binary64 (s \<noteq> t) (m * n) 1 (e + f)"

declare float_mul.simps [simp del]

text \<open>
  \<^verbatim>\<open>x / y\<close> on floats: ZeroDivisionError for a zero divisor of either sign, checked
  before anything else.
\<close>

fun float_div_finite :: "pyfloat \<Rightarrow> bool \<Rightarrow> nat \<Rightarrow> int \<Rightarrow> pyfloat" where
  "float_div_finite NaN t n f = NaN"
| "float_div_finite (Infinity s) t n f = Infinity (s \<noteq> t)"
| "float_div_finite (Finite s m e) t n f = round_binary64 (s \<noteq> t) m n (e - f)"

fun float_div_infinite :: "pyfloat \<Rightarrow> bool \<Rightarrow> pyfloat" where
  "float_div_infinite NaN t = NaN"
| "float_div_infinite (Infinity s) t = NaN"
| "float_div_infinite (Finite s m e) t = Finite (s \<noteq> t) 0 (- 1074)"

fun float_div :: "pyfloat \<Rightarrow> pyfloat \<Rightarrow> error + pyfloat" where
  "float_div x (Finite t n f) =
     (if n = 0 then Inl ZeroDivisionError else Inr (float_div_finite x t n f))"
| "float_div x NaN = Inr NaN"
| "float_div x (Infinity t) = Inr (float_div_infinite x t)"

declare float_div.simps [simp del]

text \<open>
  \<^verbatim>\<open>x ** -1\<close> on a float, as CPython's \<^verbatim>\<open>float_pow\<close> orders its cases: NaN stays NaN,
  an infinity gives a zero of its sign, a zero raises ZeroDivisionError, and otherwise
  the result is that of the C library's \<^verbatim>\<open>pow(x, -1.0)\<close>, with OverflowError when it is
  out of range. The library's \<^verbatim>\<open>pow\<close> is taken as the correctly rounded reciprocal. The
  driver raises one number only to the power -1, \<^verbatim>\<open>degreesPerCount\<close>, whose exact
  reciprocal lies a quarter of a unit in the last place from the nearest double
  2222.222222222222: a \<^verbatim>\<open>pow\<close> that errs by less than three quarters of such a unit
  returns that double.
\<close>

fun float_pow_neg1 :: "pyfloat \<Rightarrow> error + pyfloat" where
  "float_pow_neg1 NaN = Inr NaN"
| "float_pow_neg1 (Infinity s) = Inr (Finite s 0 (- 1074))"
| "float_pow_neg1 (Finite s m e) =
     (if m = 0 then Inl ZeroDivisionError
      else finite_or_overflow (round_binary64 s 1 m (- e)))"

declare float_pow_neg1.simps [simp del]

text \<open>
  \<^verbatim>\<open>round(x)\<close> with one argument: the nearest integer, ties to the even one; NaN and
  the infinities raise.
\<close>

fun py_round :: "pyfloat \<Rightarrow> error + int" where
  "py_round NaN = Inl ValueError"
| "py_round (Infinity s) = Inl OverflowError"
| "py_round (Finite s m e) =
     Inr (signed s (int (round_half_even (m * 2 ^ nat e) (2 ^ nat (- e)))))"

declare py_round.simps [simp del]

subsection \<open>The text of a float\<close>

text \<open>
  \<^verbatim>\<open>str(x)\<close> of a float is \<^verbatim>\<open>repr(x)\<close>: the shortest decimal numeral that reads back as
  \<open>x\<close>, and among the shortest ones the closest to \<open>x\<close>.

  \<open>decimal_near n m e\<close> looks among the numerals of \<open>n\<close> significant digits for the
  value \<open>m * 2\<^sup>e\<close>. With \<open>k\<close> the decimal exponent of the last of the \<open>n\<close> digits
  (\<open>decimal_exponent\<close>), the two candidates are \<open>lo * 10\<^sup>k\<close> and \<open>(lo + 1) * 10\<^sup>k\<close>
  around the value (\<open>decimal_floor\<close>). The result is the digits and \<open>k\<close> of the
  closer candidate that reads back as \<open>Finite False m e\<close>, and of the one with the
  even last digit when both read back and are equally close (\<open>decimal_choice\<close>).
\<close>

definition reads_back :: "nat \<Rightarrow> int \<Rightarrow> nat \<Rightarrow> int \<Rightarrow> bool" where
  "reads_back d k m e =
     (round_binary64 False (d * 10 ^ nat k) (10 ^ nat (- k)) 0 = Finite False m e)"

definition decimal_exponent :: "nat \<Rightarrow> nat \<Rightarrow> int \<Rightarrow> int" where
  "decimal_exponent n m e = floor_log 10 (m * 2 ^ nat e) (2 ^ nat (- e)) - (int n - 1)"

definition decimal_floor :: "nat \<Rightarrow> int \<Rightarrow> int \<Rightarrow> nat" where
  "decimal_floor m e k = (m * 2 ^ nat e * 10 ^ nat (- k)) div (2 ^ nat (- e) * 10 ^ nat k)"

definition lower_is_chosen :: "nat \<Rightarrow> int \<Rightarrow> int \<Rightarrow> nat \<Rightarrow> bool" where
  "lower_is_chosen m e k lo =
     (2 * ((m * 2 ^ nat e * 10 ^ nat (- k)) mod (2 ^ nat (- e) * 10 ^ nat k))
        < 2 ^ nat (- e) * 10 ^ nat k
      \<or> (2 * ((m * 2 ^ nat e * 10 ^ nat (- k)) mod (2 ^ nat (- e) * 10 ^ nat k))
         = 2 ^ nat (- e) * 10 ^ nat k \<and> even lo))"

definition decimal_choice :: "nat \<Rightarrow> int \<Rightarrow> int \<Rightarrow> nat \<Rightarrow> (nat \<times> int) option" where
  "decimal_choice m e k lo =
     (if reads_back lo k m e \<and> (\<not> reads_back (lo + 1) k m e \<or> lower_is_chosen m e k lo)
      then Some (lo, k)
      else if reads_back (lo + 1) k m e then Some (lo + 1, k)
      else None)"

definition decimal_at :: "nat \<Rightarrow> int \<Rightarrow> int \<Rightarrow> (nat \<times> int) option" where
  "decimal_at m e k = decimal_choice m e k (decimal_floor m e k)"

definition decimal_near :: "nat \<Rightarrow> nat \<Rightarrow> int \<Rightarrow> (nat \<times> int) option" where
  "decimal_near n m e = decimal_at m e (decimal_exponent n m e)"

text \<open>The nearest numeral of 17 significant digits, which always reads back.\<close>

definition decimal_17_at :: "nat \<Rightarrow> int \<Rightarrow> int \<Rightarrow> nat \<times> int" where
  "decimal_17_at m e k =
     (round_half_even (m * 2 ^ nat e * 10 ^ nat (- k)) (2 ^ nat (- e) * 10 ^ nat k), k)"

definition decimal_17 :: "nat \<Rightarrow> int \<Rightarrow> nat \<times> int" where
  "decimal_17 m e = decimal_17_at m e (decimal_exponent 17 m e)"

function shortest_decimal :: "nat \<Rightarrow> nat \<Rightarrow> int \<Rightarrow> nat \<times> int" where
  "shortest_decimal n m e =
     (if 17 \<le> n then decimal_17 m e
      else if decimal_near n m e = None then shortest_decimal (Suc n) m e
      else the (decimal_near n m e))"
  by pat_completeness auto
termination
  by (relation "measure (\<lambda>(n, m, e). 17 - n)") auto

declare shortest_decimal.simps [simp del]

definition strip_zeros :: "string \<Rightarrow> string" where
  "strip_zeros ds = rev (dropWhile (\<lambda>c. c = CHR ''0'') (rev ds))"

text \<open>
  The layout of \<^verbatim>\<open>repr\<close>: \<open>ds\<close> are the significant digits and \<open>decpt\<close> the position
  of the decimal point after the first \<open>decpt\<close> digits. Exponent notation is used when
  \<open>decpt \<le> -4\<close> or \<open>16 < decpt\<close>; the exponent \<open>decpt - 1\<close> has a sign and at least
  two digits.
\<close>

definition two_digits :: "string \<Rightarrow> string" where
  "two_digits xs = (if length xs < 2 then CHR ''0'' # xs else xs)"

definition exponent_text :: "int \<Rightarrow> string" where
  "exponent_text x =
     [CHR ''e'', if x < 0 then CHR ''-'' else CHR ''+''] @ two_digits (str_nat (nat \<bar>x\<bar>))"

definition format_repr :: "string \<Rightarrow> int \<Rightarrow> string" where
  "format_repr ds decpt =
     (if decpt \<le> - 4 \<or> 16 < decpt then
        take 1 ds @ (if 1 < length ds then CHR ''.'' # drop 1 ds else [])
        @ exponent_text (decpt - 1)
      else if decpt \<le> 0 then ''0.'' @ replicate (nat (- decpt)) (CHR ''0'') @ ds
      else if int (length ds) \<le> decpt then
        ds @ replicate (nat decpt - length ds) (CHR ''0'') @ ''.0''
      else take (nat decpt) ds @ CHR ''.'' # drop (nat decpt) ds)"

fun repr_digits :: "nat \<times> int \<Rightarrow> string" where
  "repr_digits (d, k) = format_repr (strip_zeros (str_nat d)) (int (length (str_nat d)) + k)"

fun float_repr :: "pyfloat \<Rightarrow> string" where
  "float_repr NaN = ''nan''"
| "float_repr (Infinity s) = (if s then ''-inf'' else ''inf'')"
| "float_repr (Finite s m e) =
     (if s then ''-'' else []) @
     (if m = 0 then ''0.0'' else repr_digits (shortest_decimal 1 m e))"

declare float_repr.simps [simp del]

section \<open>Regular expressions of the driver\<close>

text \<open>
  \<^verbatim>\<open>-?\d+\<close> matched at the start of a text, as \<^verbatim>\<open>re\<close> matches it: the optional sign
  is taken when it is there, the digits are taken greedily, and at least one digit is
  needed (a sign with no digit after it fails also without the sign, since \<^verbatim>\<open>-\<close> is
  no digit). The result is the matched text, \<^verbatim>\<open>match.group(0)\<close>.
\<close>

definition match_number :: "string \<Rightarrow> string option" where
  "match_number t =
     (case t of
        [] \<Rightarrow> None
      | c # r \<Rightarrow>
          if c = CHR ''-'' then
            (if takeWhile is_digit r = [] then None else Some (c # takeWhile is_digit r))
          else
            (if takeWhile is_digit t = [] then None else Some (takeWhile is_digit t)))"

text \<open>\<^verbatim>\<open>left.endswith(tok)\<close>: the lookbehind \<^verbatim>\<open>(?<=tok)\<close> at the end of \<open>left\<close>.\<close>

definition endswith :: "string \<Rightarrow> string \<Rightarrow> bool" where
  "endswith left tok =
     (length tok \<le> length left \<and> drop (length left - length tok) left = tok)"

text \<open>
  \<^verbatim>\<open>re.search(r'(?<=tok)-?\d+', text)\<close>: the start positions are tried from left to
  right, \<open>left\<close> being the text to the left of the position and the list argument the text
  from it on; the first position where the lookbehind and the number match wins.
\<close>

fun search_from :: "string \<Rightarrow> string \<Rightarrow> string \<Rightarrow> string option" where
  "search_from tok left [] = None"
| "search_from tok left (c # cs) =
     (if endswith left tok \<and> match_number (c # cs) \<noteq> None then match_number (c # cs)
      else search_from tok (left @ [c]) cs)"

definition re_search :: "string \<Rightarrow> string \<Rightarrow> string option" where
  "re_search tok text = search_from tok [] text"

text \<open>
  \<^verbatim>\<open>\r\n\n(>|\?)? \<close> matched at the start of a text: the length of the match. The
  prompt character is optional, the space after it is not.
\<close>

definition match_prompt :: "string \<Rightarrow> nat option" where
  "match_prompt t =
     (if take 3 t = [CR, LF, LF] then
        (if (take 1 (drop 3 t) = ''>'' \<or> take 1 (drop 3 t) = ''?'') \<and> take 1 (drop 4 t) = '' ''
         then Some 5
         else if take 1 (drop 3 t) = '' '' then Some 4
         else None)
      else None)"

text \<open>
  \<^verbatim>\<open>re.sub(r'\r\n\n(>|\?)? ', '', text)\<close>: every match, found from left to right and
  without overlap, is removed.
\<close>

function re_sub :: "string \<Rightarrow> string" where
  "re_sub [] = []"
| "re_sub (c # cs) =
     (case match_prompt (c # cs) of
        Some n \<Rightarrow> re_sub (drop (n - 1) cs)
      | None \<Rightarrow> c # re_sub cs)"
  by pat_completeness auto
termination
  by (relation "measure length") auto

text \<open>\<^verbatim>\<open>sep.join(lines)\<close>.\<close>

fun join :: "string \<Rightarrow> string list \<Rightarrow> string" where
  "join sep [] = []"
| "join sep [x] = x"
| "join sep (x # y # ys) = x @ sep @ join sep (y # ys)"

text \<open>
  \<^verbatim>\<open>text.split(sep)\<close> for a separator that is not empty: \<open>piece\<close> is the text since
  the last separator.
\<close>

function split_from :: "string \<Rightarrow> string \<Rightarrow> string \<Rightarrow> string list" where
  "split_from sep piece [] = [piece]"
| "split_from sep piece (c # cs) =
     (if sep \<noteq> [] \<and> take (length sep) (c # cs) = sep
      then piece # split_from sep [] (drop (length sep - 1) cs)
      else split_from sep (piece @ [c]) cs)"
  by pat_completeness auto
termination
  by (relation "measure (\<lambda>(sep, piece, t). length t)") auto

definition split :: "string \<Rightarrow> string \<Rightarrow> string list" where
  "split text sep = split_from sep [] text"

section \<open>The instrument and its serial line\<close>

text \<open>
  What happens is kept in order in \<open>trace\<close>: a text written to the connection, or a
  blocking \<^verbatim>\<open>sleep\<close> of so many seconds. \<open>incoming\<close> holds what the device will
  answer: one list of lines for each coming call of \<^verbatim>\<open>readlines()\<close>.
\<close>

datatype event = Wrote string | Slept nat

record instrument =
  adapter_port :: string
  adapter_baudrate :: int
  adapter_timeout :: pyfloat
  instrument_name :: string
  trace :: "event list"
  incoming :: "string list list"

type_synonym 'a result = "(error + 'a) \<times> instrument"

fun written_of :: "event list \<Rightarrow> string list" where
  "written_of [] = []"
| "written_of (Wrote t # es) = t # written_of es"
| "written_of (Slept n # es) = written_of es"

definition written :: "instrument \<Rightarrow> string list" where
  "written s = written_of (trace s)"

text \<open>Sequencing: an exception of the first part ends the whole, keeping the state.\<close>

definition and_then :: "(instrument \<Rightarrow> 'a result) \<Rightarrow> ('a \<Rightarrow> instrument \<Rightarrow> 'b result) \<Rightarrow> instrument \<Rightarrow> 'b result" where
  "and_then m f s = (case m s of (Inl e, s') \<Rightarrow> (Inl e, s') | (Inr v, s') \<Rightarrow> f v s')"

definition returns :: "'a \<Rightarrow> instrument \<Rightarrow> 'a result" where
  "returns v s = (Inr v, s)"

text \<open>A computation that touches no state: its value, or its exception.\<close>

definition lift :: "error + 'a \<Rightarrow> instrument \<Rightarrow> 'a result" where
  "lift r s = (r, s)"

text \<open>A call as a statement: the returned value is dropped.\<close>

definition call_stmt :: "(instrument \<Rightarrow> 'a result) \<Rightarrow> instrument \<Rightarrow> unit result" where
  "call_stmt m = and_then m (\<lambda>_. returns ())"

definition sleep :: "nat \<Rightarrow> instrument \<Rightarrow> unit result" where
  "sleep n s = (Inr (), s\<lparr>trace := trace s @ [Slept n]\<rparr>)"

text \<open>
  Modelled from the spec: the serial transport and the \<^verbatim>\<open>Instrument\<close> base class are
  not part of the source file. \<^verbatim>\<open>SerialAdapter(port, baud, timeout=t)\<close> opens the
  connection with these settings, \<^verbatim>\<open>Instrument.__init__\<close> keeps the connection and the
  name, \<^verbatim>\<open>connection.write(text)\<close> sends the text as it is, \<^verbatim>\<open>readlines()\<close> gives the
  lines of the next reply (no line when nothing arrives within the timeout), and
  \<^verbatim>\<open>ask(command)\<close> writes the command the way every command is written and reads the
  reply back.
\<close>

definition SerialAdapter :: "string \<Rightarrow> int \<Rightarrow> pyfloat \<Rightarrow> string list list \<Rightarrow> instrument" where
  "SerialAdapter p baud t replies =
     \<lparr>adapter_port = p, adapter_baudrate = baud, adapter_timeout = t,
      instrument_name = [], trace = [], incoming = replies\<rparr>"

definition Instrument_init :: "instrument \<Rightarrow> string \<Rightarrow> instrument" where
  "Instrument_init connection n = connection\<lparr>instrument_name := n\<rparr>"

definition connection_write :: "string \<Rightarrow> instrument \<Rightarrow> unit result" where
  "connection_write t s = (Inr (), s\<lparr>trace := trace s @ [Wrote t]\<rparr>)"

definition readlines :: "instrument \<Rightarrow> string list result" where
  "readlines s =
     (case incoming s of
        [] \<Rightarrow> (Inr [], s)
      | ls # rest \<Rightarrow> (Inr ls, s\<lparr>incoming := rest\<rparr>))"

section \<open>The class ParkerGV6\<close>

text \<open>Numbers a caller passes: Python integers and floats.\<close>

datatype pynum = PyInt int | PyFloat pyfloat

text \<open>\<^verbatim>\<open>int(x)\<close> and \<^verbatim>\<open>float(x)\<close> on a number, and \<^verbatim>\<open>x * f\<close> for a float \<open>f\<close>.\<close>

definition py_int :: "pynum \<Rightarrow> error + int" where
  "py_int x = (case x of PyInt i \<Rightarrow> Inr i | PyFloat f \<Rightarrow> int_of_float f)"

definition py_float :: "pynum \<Rightarrow> error + pyfloat" where
  "py_float x = (case x of PyInt i \<Rightarrow> float_of_int i | PyFloat f \<Rightarrow> Inr f)"

definition num_mul :: "pynum \<Rightarrow> pyfloat \<Rightarrow> error + pyfloat" where
  "num_mul x f = (case py_float x of Inl e \<Rightarrow> Inl e | Inr g \<Rightarrow> Inr (float_mul g f))"

text \<open>\<^verbatim>\<open>degreesPerCount = 0.00045 # 90 deg per 200,000 count\<close>\<close>

definition degreesPerCount :: pyfloat where
  "degreesPerCount = float_literal 45 100000"

text \<open>
  \<^verbatim>\<open>write\<close> (named \<open>write_cmd\<close> here): the command and a carriage return go to the
  connection.
\<close>

definition write_cmd :: "string \<Rightarrow> instrument \<Rightarrow> unit result" where
  "write_cmd command = connection_write (command @ [CR])"

text \<open>\<^verbatim>\<open>read\<close>: the lines of the reply joined by a newline, the prompt pattern removed.\<close>

definition read :: "instrument \<Rightarrow> string result" where
  "read = and_then readlines (\<lambda>lines. returns (re_sub (join [LF] lines)))"

definition ask :: "string \<Rightarrow> instrument \<Rightarrow> string result" where
  "ask command = and_then (write_cmd command) (\<lambda>_. read)"

definition enable :: "instrument \<Rightarrow> unit result" where
  "enable = write_cmd ''DRIVE1''"

definition disable :: "instrument \<Rightarrow> unit result" where
  "disable = write_cmd ''DRIVE0''"

definition status :: "instrument \<Rightarrow> string list result" where
  "status = and_then (ask ''TASF'') (\<lambda>reply. returns (split reply [CR, LF, LF]))"

text \<open>\<^verbatim>\<open>getPosition\<close> and \<^verbatim>\<open>getPositionError\<close>: \<open>None\<close> is Python's \<^verbatim>\<open>None\<close>.\<close>

definition parse_after :: "string \<Rightarrow> string \<Rightarrow> error + int option" where
  "parse_after tok reply =
     (case re_search tok reply of
        None \<Rightarrow> Inr None
      | Some g \<Rightarrow> (case int_of_str g of Inl e \<Rightarrow> Inl e | Inr n \<Rightarrow> Inr (Some n)))"

definition getPosition :: "instrument \<Rightarrow> int option result" where
  "getPosition = and_then (ask ''TPE'') (\<lambda>reply. lift (parse_after ''TPE'' reply))"

definition getPositionError :: "instrument \<Rightarrow> int option result" where
  "getPositionError = and_then (ask ''TPER'') (\<lambda>reply. lift (parse_after ''TPER'' reply))"

definition isMoving :: "instrument \<Rightarrow> bool result" where
  "isMoving = and_then getPosition (\<lambda>position. returns (position = None))"

text \<open>
  \<^verbatim>\<open>position*self.degreesPerCount\<close> multiplies an integer by a float: the integer is
  converted first, which raises OverflowError when it is beyond the doubles.
\<close>

definition to_degrees :: "int option \<Rightarrow> instrument \<Rightarrow> pyfloat option result" where
  "to_degrees position =
     (case position of
        Some c \<Rightarrow> and_then (lift (num_mul (PyInt c) degreesPerCount)) (\<lambda>a. returns (Some a))
      | None \<Rightarrow> returns None)"

definition getAngle :: "instrument \<Rightarrow> pyfloat option result" where
  "getAngle = and_then getPosition to_degrees"

definition getAngleError :: "instrument \<Rightarrow> pyfloat option result" where
  "getAngleError = and_then getPositionError to_degrees"

definition setPosition :: "pynum \<Rightarrow> instrument \<Rightarrow> unit result" where
  "setPosition counts =
     and_then (lift (py_int counts)) (\<lambda>c.
     and_then (lift (str_int c)) (\<lambda>t.
     write_cmd (''D'' @ t)))"

text \<open>\<^verbatim>\<open>self.setPosition(int(angle*self.degreesPerCount**-1))\<close>\<close>

definition angle_counts :: "pynum \<Rightarrow> error + int" where
  "angle_counts angle =
     (case float_pow_neg1 degreesPerCount of
        Inl e \<Rightarrow> Inl e
      | Inr r \<Rightarrow>
          (case num_mul angle r of
             Inl e \<Rightarrow> Inl e
           | Inr p \<Rightarrow> int_of_float p))"

definition setAngle :: "pynum \<Rightarrow> instrument \<Rightarrow> unit result" where
  "setAngle angle = and_then (lift (angle_counts angle)) (\<lambda>c. setPosition (PyInt c))"

definition move :: "instrument \<Rightarrow> unit result" where
  "move = write_cmd ''GO''"

definition stop :: "instrument \<Rightarrow> unit result" where
  "stop = write_cmd ''S''"

definition kill :: "instrument \<Rightarrow> unit result" where
  "kill = write_cmd ''K''"

definition setAbsolutePosition :: "instrument \<Rightarrow> unit result" where
  "setAbsolutePosition = and_then (write_cmd ''MA1'') (\<lambda>_. write_cmd ''MC0'')"

definition setRelativePosition :: "instrument \<Rightarrow> unit result" where
  "setRelativePosition = and_then (write_cmd ''MA0'') (\<lambda>_. write_cmd ''MC0'')"

text \<open>
  A parameter with the default \<^verbatim>\<open>enable=False\<close>: \<open>None\<close> is a call that leaves the
  argument out.
\<close>

definition default_False :: "bool option \<Rightarrow> bool" where
  "default_False arg = (case arg of None \<Rightarrow> False | Some b \<Rightarrow> b)"

definition setHardwareLimits :: "bool option \<Rightarrow> instrument \<Rightarrow> unit result" where
  "setHardwareLimits arg = (if default_False arg then write_cmd ''LH1'' else write_cmd ''LH0'')"

definition setSoftwareLimits :: "pynum \<Rightarrow> pynum \<Rightarrow> instrument \<Rightarrow> unit result" where
  "setSoftwareLimits positive negative =
     and_then (lift (py_int positive)) (\<lambda>p.
     and_then (lift (str_int p)) (\<lambda>t.
     and_then (write_cmd (''LSPOS'' @ t)) (\<lambda>_.
     and_then (lift (py_int negative)) (\<lambda>n.
     and_then (lift (str_int n)) (\<lambda>u.
     write_cmd (''LSNEG'' @ u))))))"

definition setEcho :: "bool option \<Rightarrow> instrument \<Rightarrow> unit result" where
  "setEcho arg = (if default_False arg then write_cmd ''ECHO1'' else write_cmd ''ECHO0'')"

definition setAcceleration :: "pynum \<Rightarrow> instrument \<Rightarrow> unit result" where
  "setAcceleration acceleration =
     and_then (lift (py_float acceleration)) (\<lambda>a. write_cmd (''A'' @ float_repr a))"

definition setAverageAcceleration :: "pynum \<Rightarrow> instrument \<Rightarrow> unit result" where
  "setAverageAcceleration acceleration =
     and_then (lift (py_float acceleration)) (\<lambda>a. write_cmd (''AA'' @ float_repr a))"

definition setVelocity :: "pynum \<Rightarrow> instrument \<Rightarrow> unit result" where
  "setVelocity velocity =
     and_then (lift (py_float velocity)) (\<lambda>v. write_cmd (''V'' @ float_repr v))"

definition setDefaults :: "instrument \<Rightarrow> unit result" where
  "setDefaults =
     and_then (setEcho (Some False)) (\<lambda>_.
     and_then (setHardwareLimits (Some False)) (\<lambda>_.
     and_then setAbsolutePosition (\<lambda>_.
     and_then (setAverageAcceleration (PyInt 1)) (\<lambda>_.
     and_then (setAcceleration (PyInt 1)) (\<lambda>_.
     setVelocity (PyInt 3))))))"

text \<open>
  \<^verbatim>\<open>__init__\<close>: the connection is opened at 9600 baud with a timeout of 0.5 seconds,
  then \<^verbatim>\<open>setDefaults\<close> runs. \<open>replies\<close> is what the device on that port will answer.
\<close>

definition init :: "string \<Rightarrow> string list list \<Rightarrow> unit result" where
  "init p replies =
     setDefaults
       (Instrument_init (SerialAdapter p 9600 (float_literal 5 10) replies)
          ''Parker GV6 Motor Controller'')"

text \<open>
  A call \<^verbatim>\<open>self.NAME()\<close> finds its method by name when it runs. These are the methods
  of the class that such a statement can call with no argument (\<^verbatim>\<open>reset\<close>, the caller
  below, apart), and the two readers of the base class; any other name raises
  AttributeError.
\<close>

definition methods :: "(string \<times> (instrument \<Rightarrow> unit result)) list" where
  "methods =
     [(''setDefaults'', setDefaults),
      (''enable'', enable),
      (''disable'', disable),
      (''status'', call_stmt status),
      (''isMoving'', call_stmt isMoving),
      (''getAngle'', call_stmt getAngle),
      (''getAngleError'', call_stmt getAngleError),
      (''getPosition'', call_stmt getPosition),
      (''getPositionError'', call_stmt getPositionError),
      (''move'', move),
      (''stop'', stop),
      (''kill'', kill),
      (''setAbsolutePosition'', setAbsolutePosition),
      (''setRelativePosition'', setRelativePosition),
      (''setHardwareLimits'', setHardwareLimits None),
      (''setEcho'', setEcho None),
      (''read'', call_stmt read),
      (''readlines'', call_stmt readlines)]"

definition call_method :: "string \<Rightarrow> instrument \<Rightarrow> unit result" where
  "call_method n s =
     (case map_of methods n of
        None \<Rightarrow> (Inl AttributeError, s)
      | Some m \<Rightarrow> m s)"

text \<open>
  \<^verbatim>\<open>reset\<close>: the source calls \<^verbatim>\<open>self.setDefault()\<close>, a name the class does not define
  (its method is \<^verbatim>\<open>setDefaults\<close>).
\<close>

definition reset :: "instrument \<Rightarrow> unit result" where
  "reset =
     and_then (write_cmd ''RESET'') (\<lambda>_.
     and_then (sleep 5) (\<lambda>_.
     and_then (call_method ''setDefault'') (\<lambda>_.
     enable)))"

text \<open>
  The operations of the controller, with their arguments, and a call of one. \<open>Write\<close>,
  \<open>Ask\<close> and \<open>Read\<close> are the methods \<^verbatim>\<open>write\<close>, \<^verbatim>\<open>ask\<close> and \<^verbatim>\<open>read\<close> called from
  outside, with the command the caller gives.
\<close>

datatype operation =
    Reset | Enable | Disable | Status | IsMoving | GetAngle | GetAngleError
  | SetAngle pynum | GetPosition | GetPositionError | SetPosition pynum
  | Move | Stop | Kill | SetAbsolutePosition | SetRelativePosition
  | SetHardwareLimits "bool option" | SetSoftwareLimits pynum pynum
  | SetEcho "bool option" | SetAcceleration pynum | SetAverageAcceleration pynum
  | SetVelocity pynum | SetDefaults | Write string | Ask string | Read

fun run :: "operation \<Rightarrow> instrument \<Rightarrow> unit result" where
  "run Reset = reset"
| "run Enable = enable"
| "run Disable = disable"
| "run Status = call_stmt status"
| "run IsMoving = call_stmt isMoving"
| "run GetAngle = call_stmt getAngle"
| "run GetAngleError = call_stmt getAngleError"
| "run (SetAngle a) = setAngle a"
| "run GetPosition = call_stmt getPosition"
| "run GetPositionError = call_stmt getPositionError"
| "run (SetPosition c) = setPosition c"
| "run Move = move"
| "run Stop = stop"
| "run Kill = kill"
| "run SetAbsolutePosition = setAbsolutePosition"
| "run SetRelativePosition = setRelativePosition"
| "run (SetHardwareLimits b) = setHardwareLimits b"
| "run (SetSoftwareLimits p n) = setSoftwareLimits p n"
| "run (SetEcho b) = setEcho b"
| "run (SetAcceleration a) = setAcceleration a"
| "run (SetAverageAcceleration a) = setAverageAcceleration a"
| "run (SetVelocity v) = setVelocity v"
| "run SetDefaults = setDefaults"
| "run (Write command) = write_cmd command"
| "run (Ask command) = call_stmt (ask command)"
| "run Read = call_stmt read"

section \<open>Notions the properties are stated with\<close>

text \<open>
  An optionally signed decimal numeral: digits, at least one, after an optional minus
  sign.
\<close>

definition digits1 :: "string \<Rightarrow> bool" where
  "digits1 ds = (ds \<noteq> [] \<and> list_all is_digit ds)"

definition signed_numeral :: "string \<Rightarrow> bool" where
  "signed_numeral t = (digits1 t \<or> (take 1 t = ''-'' \<and> digits1 (drop 1 t)))"

text \<open>The integer that such a numeral denotes.\<close>

definition numeral_value :: "string \<Rightarrow> int" where
  "numeral_value t =
     (if take 1 t = ''-'' then - int_of_digits (drop 1 t) else int_of_digits t)"

text \<open>
  The three texts the pattern \<^verbatim>\<open>\r\n\n(>|\?)? \<close> matches, and whether a text holds a
  match at some position.
\<close>

definition prompt_patterns :: "string list" where
  "prompt_patterns = [[CR, LF, LF] @ ''> '', [CR, LF, LF] @ ''? '', [CR, LF, LF] @ '' '']"

fun has_prompt :: "string \<Rightarrow> bool" where
  "has_prompt [] = False"
| "has_prompt (c # cs) = (match_prompt (c # cs) \<noteq> None \<or> has_prompt cs)"

text \<open>
  The reading of \<^verbatim>\<open>setAngle\<close> that claim C2 states, to compare with the source's:
  \<^verbatim>\<open>setPosition(round(angle / 0.00045))\<close>.
\<close>

definition claimed_counts :: "pynum \<Rightarrow> error + int" where
  "claimed_counts angle =
     (case py_float angle of
        Inl e \<Rightarrow> Inl e
      | Inr a \<Rightarrow>
          (case float_div a (float_literal 45 100000) of
             Inl e \<Rightarrow> Inl e
           | Inr q \<Rightarrow> py_round q))"

definition claimed_setAngle :: "pynum \<Rightarrow> instrument \<Rightarrow> unit result" where
  "claimed_setAngle angle = and_then (lift (claimed_counts angle)) (\<lambda>c. setPosition (PyInt c))"

text \<open>A connection just opened, on which nothing was written yet.\<close>

definition fresh :: instrument where
  "fresh = SerialAdapter ''COM1'' 9600 (float_literal 5 10) []"

text \<open>
  The shape of a text on the wire, for claim C9: a command, that is a mnemonic of
  capital letters followed by its argument, then one carriage return and no other.
  The argument is decimal when it is made of digits, signs, a point and an exponent
  mark (it may be empty); the texts of the floats that are no numbers are the other
  arguments the driver can write.
\<close>

definition is_upper :: "char \<Rightarrow> bool" where
  "is_upper c = (c \<in> set ''ABCDEFGHIJKLMNOPQRSTUVWXYZ'')"

definition decimal_char :: "char \<Rightarrow> bool" where
  "decimal_char c = (c \<in> set ''0123456789-+.e'')"

definition decimal_argument :: "string \<Rightarrow> bool" where
  "decimal_argument a = list_all decimal_char a"

definition nonfinite_argument :: "string \<Rightarrow> bool" where
  "nonfinite_argument a = (a \<in> set [''inf'', ''-inf'', ''nan''])"

definition command_with :: "(string \<Rightarrow> bool) \<Rightarrow> string \<Rightarrow> bool" where
  "command_with arg_ok cmd = (takeWhile is_upper cmd \<noteq> [] \<and> arg_ok (dropWhile is_upper cmd))"

definition wire_with :: "(string \<Rightarrow> bool) \<Rightarrow> string \<Rightarrow> bool" where
  "wire_with arg_ok t =
     (t \<noteq> [] \<and> last t = CR \<and> CR \<notin> set (butlast t) \<and> command_with arg_ok (butlast t))"

definition ends_with_CR :: "string \<Rightarrow> bool" where
  "ends_with_CR t = (t \<noteq> [] \<and> last t = CR)"

definition wire_text :: "string \<Rightarrow> bool" where
  "wire_text = wire_with decimal_argument"

definition wire_text_any :: "string \<Rightarrow> bool" where
  "wire_text_any = wire_with (\<lambda>a. decimal_argument a \<or> nonfinite_argument a)"

text \<open>Whether the numbers an operation is called with are integers or finite floats.\<close>

fun finite_num :: "pynum \<Rightarrow> bool" where
  "finite_num (PyInt i) = True"
| "finite_num (PyFloat (Finite s m e)) = True"
| "finite_num (PyFloat (Infinity s)) = False"
| "finite_num (PyFloat NaN) = False"

fun finite_args :: "operation \<Rightarrow> bool" where
  "finite_args (SetAcceleration a) = finite_num a"
| "finite_args (SetAverageAcceleration a) = finite_num a"
| "finite_args (SetVelocity v) = finite_num v"
| "finite_args (SetAngle a) = finite_num a"
| "finite_args (SetPosition c) = finite_num c"
| "finite_args (SetSoftwareLimits p n) = (finite_num p \<and> finite_num n)"
| "finite_args op = True"


text \<open>Whether the text an operation writes is the command its caller passes.\<close>

fun caller_command :: "operation \<Rightarrow> bool" where
  "caller_command (Write command) = True"
| "caller_command (Ask command) = True"
| "caller_command op = False"

chapter \<open>Properties\<close>

section \<open>Sequencing and the wire\<close>

lemma write_cmd_eq:
  "write_cmd c s = (Inr (), s\<lparr>trace := trace s @ [Wrote (c @ [CR])]\<rparr>)"
  by (simp add: write_cmd_def connection_write_def)

lemma and_then_write_cmd:
  "and_then (write_cmd c) f s = f () (s\<lparr>trace := trace s @ [Wrote (c @ [CR])]\<rparr>)"
  by (simp add: and_then_def write_cmd_eq)

lemma and_then_lift_Inr: "and_then (lift (Inr v)) f s = f v s"
  by (simp add: and_then_def lift_def)

lemma and_then_lift_Inl: "and_then (lift (Inl e)) f s = (Inl e, s)"
  by (simp add: and_then_def lift_def)

lemma and_then_returns: "and_then m (\<lambda>v. returns (g v)) s = (map_sum id g (fst (m s)), snd (m s))"
  by (cases "m s"; cases "fst (m s)") (auto simp: and_then_def returns_def)

lemma trace_update_eq: "(s\<lparr>trace := a\<rparr> = s\<lparr>trace := b\<rparr>) = (a = b)"
proof
  assume "s\<lparr>trace := a\<rparr> = s\<lparr>trace := b\<rparr>"
  then have "trace (s\<lparr>trace := a\<rparr>) = trace (s\<lparr>trace := b\<rparr>)"
    by (rule arg_cong)
  then show "a = b" by simp
qed simp

lemma written_append: "written_of (es @ fs) = written_of es @ written_of fs"
  by (induction es rule: written_of.induct) simp_all

lemma readlines_eq:
  "readlines s = (Inr (case incoming s of [] \<Rightarrow> [] | ls # rest \<Rightarrow> ls), s\<lparr>incoming := tl (incoming s)\<rparr>)"
  by (cases "incoming s") (simp_all add: readlines_def)

lemma read_eq:
  "read s = (Inr (re_sub (join [LF] (case incoming s of [] \<Rightarrow> [] | ls # rest \<Rightarrow> ls))),
             s\<lparr>incoming := tl (incoming s)\<rparr>)"
  by (simp add: read_def and_then_def readlines_eq returns_def)

lemma ask_eq:
  "ask c s = (Inr (re_sub (join [LF] (case incoming s of [] \<Rightarrow> [] | ls # rest \<Rightarrow> ls))),
              s\<lparr>trace := trace s @ [Wrote (c @ [CR])], incoming := tl (incoming s)\<rparr>)"
  by (simp add: ask_def and_then_write_cmd read_eq)

section \<open>Numbers as text\<close>

lemmas binary64_eval =
  round_binary64_def binary64_at_def binary64_pack_def binary64_range_def
  binary64_exponent_def floor_log_def floor_log_near_def num_digits.simps
  round_half_even_def float_mul.simps float_div.simps float_pow_neg1.simps

lemmas repr_eval =
  shortest_decimal.simps decimal_near_def decimal_at_def decimal_choice_def
  decimal_floor_def lower_is_chosen_def decimal_exponent_def decimal_17_def
  decimal_17_at_def reads_back_def strip_zeros_def format_repr_def exponent_text_def
  two_digits_def str_nat.simps digit_char_def

lemma float_of_int_1: "float_of_int 1 = Inr (Finite False 4503599627370496 (- 52))"
  by (simp add: float_of_int_def binary64_eval)

lemma float_of_int_3: "float_of_int 3 = Inr (Finite False 6755399441055744 (- 51))"
  by (simp add: float_of_int_def binary64_eval)

lemma float_repr_1: "float_repr (Finite False 4503599627370496 (- 52)) = ''1.0''"
  by (simp add: float_repr.simps binary64_eval repr_eval)

lemma float_repr_3: "float_repr (Finite False 6755399441055744 (- 51)) = ''3.0''"
  by (simp add: float_repr.simps binary64_eval repr_eval)

lemma float_literal_half: "float_literal 5 10 = Finite False 4503599627370496 (- 53)"
  by (simp add: float_literal_def binary64_eval)

lemma str_nat_length_le: "n < 10 ^ k \<Longrightarrow> 0 < k \<Longrightarrow> length (str_nat n) \<le> k"
proof (induction k arbitrary: n)
  case 0
  then show ?case by simp
next
  case (Suc k)
  show ?case
  proof (cases "n < 10")
    case True
    then show ?thesis by (simp add: str_nat.simps [of n])
  next
    case False
    with Suc.prems have k: "0 < k"
      by (cases k) simp_all
    from Suc.prems have "n div 10 < 10 ^ k"
      by (simp add: less_mult_imp_div_less mult.commute)
    from Suc.IH [OF this k] False show ?thesis
      by (simp add: str_nat.simps [of n])
  qed
qed

lemma str_nat_length_gt: "10 ^ k \<le> n \<Longrightarrow> k < length (str_nat n)"
proof (induction k arbitrary: n)
  case 0
  then show ?case by (simp add: str_nat.simps [of n])
next
  case (Suc k)
  from Suc.prems have p: "10 * 10 ^ k \<le> n"
    by simp
  have "(1::nat) \<le> 10 ^ k"
    by simp
  with p have big: "\<not> n < 10"
    by linarith
  from p have "10 ^ k \<le> n div 10"
    by (simp add: less_eq_div_iff_mult_less_eq mult.commute)
  from Suc.IH [OF this] big show ?case
    by (simp add: str_nat.simps [of n])
qed

lemma digit_count_le: "0 < k \<Longrightarrow> (digit_count i \<le> k) = (\<bar>i\<bar> < 10 ^ k)"
proof -
  assume k: "0 < k"
  have n: "(nat \<bar>i\<bar> < 10 ^ k) = (\<bar>i\<bar> < 10 ^ k)"
    by (simp add: nat_less_iff)
  show ?thesis
  proof (cases "nat \<bar>i\<bar> < 10 ^ k")
    case True
    with str_nat_length_le [OF True k] n show ?thesis
      by (simp add: digit_count_def)
  next
    case False
    then have "10 ^ k \<le> nat \<bar>i\<bar>" by simp
    from str_nat_length_gt [OF this] False n show ?thesis
      by (simp add: digit_count_def)
  qed
qed

lemma digit_count_power: "k < digit_count (10 ^ k)"
proof -
  have e: "nat \<bar>(10::int) ^ k\<bar> = 10 ^ k"
    by (simp add: nat_power_eq)
  show ?thesis
    unfolding digit_count_def e by (rule str_nat_length_gt) simp
qed

lemma str_int_within: "digit_count i \<le> max_str_digits \<Longrightarrow> str_int i = Inr (decimal_int i)"
  by (simp add: str_int_def)

lemma str_int_beyond: "max_str_digits < digit_count i \<Longrightarrow> str_int i = Inl ValueError"
  by (simp add: str_int_def)

lemma digit_count_small:
  "digit_count 0 = 1" "digit_count 1 = 1" "digit_count 100 = 3" "digit_count (- 50) = 2"
  "digit_count 4000 = 4"
  by (simp_all add: digit_count_def str_nat.simps)

lemma decimal_int_small:
  "decimal_int 0 = ''0''" "decimal_int 1 = ''1''" "decimal_int 100 = ''100''"
  "decimal_int (- 50) = ''-50''" "decimal_int 4000 = ''4000''"
  by (simp_all add: decimal_int_def str_nat.simps digit_char_def)

lemma str_int_small:
  "str_int 0 = Inr ''0''" "str_int 1 = Inr ''1''" "str_int 100 = Inr ''100''"
  "str_int (- 50) = Inr ''-50''" "str_int 4000 = Inr ''4000''"
  by (simp_all add: str_int_def digit_count_small decimal_int_small max_str_digits_def)

section \<open>The default configuration\<close>

lemma setEcho_False: "setEcho (Some False) = write_cmd ''ECHO0''"
  by (simp add: setEcho_def default_False_def)

lemma setHardwareLimits_False: "setHardwareLimits (Some False) = write_cmd ''LH0''"
  by (simp add: setHardwareLimits_def default_False_def)

lemma setAverageAcceleration_1: "setAverageAcceleration (PyInt 1) = write_cmd ''AA1.0''"
  by (rule ext)
    (simp add: setAverageAcceleration_def py_float_def float_of_int_1 and_then_lift_Inr
      float_repr_1)

lemma setAcceleration_1: "setAcceleration (PyInt 1) = write_cmd ''A1.0''"
  by (rule ext)
    (simp add: setAcceleration_def py_float_def float_of_int_1 and_then_lift_Inr float_repr_1)

lemma setVelocity_3: "setVelocity (PyInt 3) = write_cmd ''V3.0''"
  by (rule ext)
    (simp add: setVelocity_def py_float_def float_of_int_3 and_then_lift_Inr float_repr_3)

lemma setDefaults_eq:
  "setDefaults s =
     (Inr (), s\<lparr>trace := trace s @
        [Wrote (''ECHO0'' @ [CR]), Wrote (''LH0'' @ [CR]), Wrote (''MA1'' @ [CR]),
         Wrote (''MC0'' @ [CR]), Wrote (''AA1.0'' @ [CR]), Wrote (''A1.0'' @ [CR]),
         Wrote (''V3.0'' @ [CR])]\<rparr>)"
  by (simp add: setDefaults_def setEcho_False setHardwareLimits_False
      setAverageAcceleration_1 setAcceleration_1 setVelocity_3 setAbsolutePosition_def
      and_then_write_cmd and_then_def write_cmd_eq)

text \<open>
  C8. Construction opens the connection at 9600 baud with a timeout of 0.5 seconds
  (the double \<open>2\<^sup>5\<^sup>2 * 2\<^sup>-\<^sup>5\<^sup>3\<close>) and then writes, in this order and with nothing
  else, ECHO0 (echo off), LH0 (hardware limits off), MA1 and MC0 (absolute
  positioning), AA1.0 (average acceleration 1), A1.0 (acceleration 1) and V3.0
  (velocity 3); it raises nothing.
\<close>

theorem init_applies_defaults:
  "init p replies =
     (Inr (),
      \<lparr>adapter_port = p, adapter_baudrate = 9600,
       adapter_timeout = Finite False 4503599627370496 (- 53),
       instrument_name = ''Parker GV6 Motor Controller'',
       trace =
        [Wrote (''ECHO0'' @ [CR]), Wrote (''LH0'' @ [CR]), Wrote (''MA1'' @ [CR]),
         Wrote (''MC0'' @ [CR]), Wrote (''AA1.0'' @ [CR]), Wrote (''A1.0'' @ [CR]),
         Wrote (''V3.0'' @ [CR])],
       incoming = replies\<rparr>)"
  by (simp add: init_def setDefaults_eq Instrument_init_def SerialAdapter_def
      float_literal_half)

section \<open>Reset\<close>

lemma lookup_setDefault: "map_of methods ''setDefault'' = None"
  by (simp add: methods_def)

lemma lookup_setDefaults: "call_method ''setDefaults'' = setDefaults"
  by (rule ext) (simp add: call_method_def methods_def)

lemma lookup_enable: "call_method ''enable'' = enable"
  by (rule ext) (simp add: call_method_def methods_def)

text \<open>
  C1. The source of \<^verbatim>\<open>reset\<close> does not do what the claim says: it writes RESET, sleeps
  5 seconds, and then the call \<^verbatim>\<open>self.setDefault()\<close> finds no method of that name and
  raises AttributeError. Neither the default configuration nor DRIVE1 is written.
\<close>

theorem reset_raises_AttributeError:
  "reset s = (Inl AttributeError, s\<lparr>trace := trace s @ [Wrote (''RESET'' @ [CR]), Slept 5]\<rparr>)"
  by (simp add: reset_def and_then_def write_cmd_eq sleep_def call_method_def
      lookup_setDefault)

section \<open>Limits and echo\<close>

lemma setSoftwareLimits_int:
  "setSoftwareLimits (PyInt p) (PyInt n) s =
     (case str_int p of
        Inl e \<Rightarrow> (Inl e, s)
      | Inr t \<Rightarrow>
          (case str_int n of
             Inl e \<Rightarrow> (Inl e, s\<lparr>trace := trace s @ [Wrote (''LSPOS'' @ t @ [CR])]\<rparr>)
           | Inr u \<Rightarrow>
               (Inr (), s\<lparr>trace := trace s @
                  [Wrote (''LSPOS'' @ t @ [CR]), Wrote (''LSNEG'' @ u @ [CR])]\<rparr>)))"
  by (cases "str_int p"; cases "str_int n")
    (simp_all add: setSoftwareLimits_def py_int_def and_then_lift_Inr and_then_lift_Inl
      and_then_write_cmd write_cmd_eq)

text \<open>
  C7, as amended. \<^verbatim>\<open>setSoftwareLimits(100, -50)\<close> writes exactly LSPOS100 and then
  LSNEG-50. For all integers \<open>p\<close> and \<open>n\<close> of at most 4300 decimal digits (their
  absolute values are below \<open>10\<^sup>4\<^sup>3\<^sup>0\<^sup>0\<close>) \<^verbatim>\<open>setSoftwareLimits(p, n)\<close> writes exactly two
  texts, LSPOS followed by the decimal numeral of \<open>p\<close> and then LSNEG followed by the
  decimal numeral of \<open>n\<close>, and raises nothing. When \<open>p\<close> has more digits, the call
  raises ValueError and writes nothing; when only \<open>n\<close> has more, it writes the LSPOS
  text and then raises ValueError.
\<close>

theorem setSoftwareLimits_emits:
  "(digit_count p \<le> max_str_digits \<and> digit_count n \<le> max_str_digits \<longrightarrow>
      setSoftwareLimits (PyInt p) (PyInt n) s =
        (Inr (), s\<lparr>trace := trace s @
           [Wrote (''LSPOS'' @ decimal_int p @ [CR]), Wrote (''LSNEG'' @ decimal_int n @ [CR])]\<rparr>))
   \<and> (max_str_digits < digit_count p \<longrightarrow>
      setSoftwareLimits (PyInt p) (PyInt n) s = (Inl ValueError, s))
   \<and> (digit_count p \<le> max_str_digits \<and> max_str_digits < digit_count n \<longrightarrow>
      setSoftwareLimits (PyInt p) (PyInt n) s =
        (Inl ValueError, s\<lparr>trace := trace s @ [Wrote (''LSPOS'' @ decimal_int p @ [CR])]\<rparr>))
   \<and> (0 < k \<longrightarrow> (digit_count i \<le> k) = (\<bar>i\<bar> < 10 ^ k))
   \<and> max_str_digits = 4300
   \<and> setSoftwareLimits (PyInt 100) (PyInt (- 50)) s =
       (Inr (), s\<lparr>trace := trace s @
          [Wrote (''LSPOS100'' @ [CR]), Wrote (''LSNEG-50'' @ [CR])]\<rparr>)"
proof -
  have a: "digit_count p \<le> max_str_digits \<and> digit_count n \<le> max_str_digits \<longrightarrow>
      setSoftwareLimits (PyInt p) (PyInt n) s =
        (Inr (), s\<lparr>trace := trace s @
           [Wrote (''LSPOS'' @ decimal_int p @ [CR]), Wrote (''LSNEG'' @ decimal_int n @ [CR])]\<rparr>)"
    by (simp add: setSoftwareLimits_int str_int_within)
  have b: "max_str_digits < digit_count p \<longrightarrow>
      setSoftwareLimits (PyInt p) (PyInt n) s = (Inl ValueError, s)"
    by (simp add: setSoftwareLimits_int str_int_beyond)
  have c: "digit_count p \<le> max_str_digits \<and> max_str_digits < digit_count n \<longrightarrow>
      setSoftwareLimits (PyInt p) (PyInt n) s =
        (Inl ValueError, s\<lparr>trace := trace s @ [Wrote (''LSPOS'' @ decimal_int p @ [CR])]\<rparr>)"
    by (simp add: setSoftwareLimits_int str_int_within str_int_beyond)
  have d: "0 < k \<longrightarrow> (digit_count i \<le> k) = (\<bar>i\<bar> < 10 ^ k)"
    using digit_count_le [of k i] by blast
  have e: "setSoftwareLimits (PyInt 100) (PyInt (- 50)) s =
       (Inr (), s\<lparr>trace := trace s @
          [Wrote (''LSPOS100'' @ [CR]), Wrote (''LSNEG-50'' @ [CR])]\<rparr>)"
    by (simp add: setSoftwareLimits_int str_int_small)
  from a b c d e max_str_digits_def show ?thesis
    by blast
qed

theorem setSoftwareLimits_emits_witness:
  "setSoftwareLimits (PyInt 4000) (PyInt (- 50)) fresh =
     (Inr (), fresh\<lparr>trace := trace fresh @
        [Wrote (''LSPOS'' @ decimal_int 4000 @ [CR]), Wrote (''LSNEG'' @ decimal_int (- 50) @ [CR])]\<rparr>)
   \<and> setSoftwareLimits (PyInt (10 ^ 4301)) (PyInt 0) fresh = (Inl ValueError, fresh)
   \<and> setSoftwareLimits (PyInt 0) (PyInt (10 ^ 4301)) fresh =
       (Inl ValueError, fresh\<lparr>trace := trace fresh @ [Wrote (''LSPOS'' @ decimal_int 0 @ [CR])]\<rparr>)
   \<and> (digit_count 100 \<le> 3) = (\<bar>100::int\<bar> < 10 ^ 3)"
proof -
  have small: "digit_count 4000 \<le> max_str_digits" "digit_count (- 50) \<le> max_str_digits"
    "digit_count 0 \<le> max_str_digits"
    by (simp_all add: digit_count_small max_str_digits_def)
  have "max_str_digits < 4301"
    by (simp add: max_str_digits_def)
  then have big: "max_str_digits < digit_count (10 ^ 4301)"
    using digit_count_power [of 4301] by (rule less_trans)
  have k: "0 < (3::nat)" by simp
  from small big k
    setSoftwareLimits_emits [of 4000 "- 50" fresh 3 100]
    setSoftwareLimits_emits [of "10 ^ 4301" 0 fresh 3 100]
    setSoftwareLimits_emits [of 0 "10 ^ 4301" fresh 3 100]
  show ?thesis by blast
qed

text \<open>
  C7, as the claim states it, fails: for \<open>p = 10\<^sup>4\<^sup>3\<^sup>0\<^sup>0\<close>, a numeral of 4301 digits,
  \<^verbatim>\<open>setSoftwareLimits(p, 0)\<close> raises ValueError and writes nothing.
\<close>

theorem setSoftwareLimits_raises_beyond_digit_limit:
  "setSoftwareLimits (PyInt (10 ^ max_str_digits)) (PyInt 0) fresh = (Inl ValueError, fresh)
   \<and> written (snd (setSoftwareLimits (PyInt (10 ^ max_str_digits)) (PyInt 0) fresh)) = []
   \<and> max_str_digits = 4300"
proof -
  have "str_int (10 ^ max_str_digits) = Inl ValueError"
    using digit_count_power [of max_str_digits] by (rule str_int_beyond)
  then have r: "setSoftwareLimits (PyInt (10 ^ max_str_digits)) (PyInt 0) fresh = (Inl ValueError, fresh)"
    by (simp add: setSoftwareLimits_int)
  have w: "written fresh = []"
    by (simp add: fresh_def written_def SerialAdapter_def)
  have "written (snd (setSoftwareLimits (PyInt (10 ^ max_str_digits)) (PyInt 0) fresh)) = []"
    unfolding r using w by simp
  with r max_str_digits_def show ?thesis
    by blast
qed

text \<open>
  C10. The parameter \<^verbatim>\<open>enable\<close> of \<^verbatim>\<open>setEcho\<close> and of \<^verbatim>\<open>setHardwareLimits\<close> defaults to
  False: a call without argument writes ECHO0, respectively LH0, as the call with
  False does, and not the enabling command.
\<close>

theorem default_argument_disables:
  "setEcho None s = (Inr (), s\<lparr>trace := trace s @ [Wrote (''ECHO0'' @ [CR])]\<rparr>)
   \<and> setHardwareLimits None s = (Inr (), s\<lparr>trace := trace s @ [Wrote (''LH0'' @ [CR])]\<rparr>)
   \<and> setEcho None = setEcho (Some False)
   \<and> setHardwareLimits None = setHardwareLimits (Some False)
   \<and> setEcho None s \<noteq> setEcho (Some True) s
   \<and> setHardwareLimits None s \<noteq> setHardwareLimits (Some True) s"
  by (simp add: setEcho_def setHardwareLimits_def default_False_def write_cmd_eq
      trace_update_eq)

section \<open>Reading the position\<close>

lemma minus_no_digit: "\<not> is_digit CHR ''-''"
  by (simp add: is_digit_def)

lemma takeWhile_digits: "list_all is_digit (takeWhile is_digit t)"
  by (induction t) simp_all

lemma rest_after_digits:
  "t = takeWhile is_digit t @ rest \<Longrightarrow> rest = [] \<or> \<not> is_digit (hd rest)"
proof -
  assume "t = takeWhile is_digit t @ rest"
  then have "rest = dropWhile is_digit t"
    by (metis append_eq_append_conv takeWhile_dropWhile_id)
  then show ?thesis
    by (metis hd_dropWhile)
qed

lemma match_number_Some:
  assumes "match_number t = Some g"
  shows "\<exists>rest. t = g @ rest \<and> signed_numeral g \<and> (rest = [] \<or> \<not> is_digit (hd rest))"
proof (cases t)
  case Nil
  with assms show ?thesis by (simp add: match_number_def)
next
  case (Cons c r)
  show ?thesis
  proof (cases "c = CHR ''-''")
    case True
    with assms Cons have g: "g = c # takeWhile is_digit r" and ne: "takeWhile is_digit r \<noteq> []"
      by (auto simp: match_number_def split: if_splits)
    have "t = g @ dropWhile is_digit r"
      using Cons g by simp
    moreover have "signed_numeral g"
      using g ne True by (simp add: signed_numeral_def digits1_def takeWhile_digits)
    moreover have "dropWhile is_digit r = [] \<or> \<not> is_digit (hd (dropWhile is_digit r))"
      by (metis hd_dropWhile)
    ultimately show ?thesis by blast
  next
    case False
    with assms Cons have g: "g = takeWhile is_digit t" and ne: "takeWhile is_digit t \<noteq> []"
      by (auto simp: match_number_def split: if_splits)
    have "t = g @ dropWhile is_digit t"
      using g by simp
    moreover have "signed_numeral g"
      using g ne by (simp add: signed_numeral_def digits1_def takeWhile_digits)
    moreover have "dropWhile is_digit t = [] \<or> \<not> is_digit (hd (dropWhile is_digit t))"
      by (metis hd_dropWhile)
    ultimately show ?thesis by blast
  qed
qed

lemma takeWhile_digits1: "digits1 ds \<Longrightarrow> takeWhile is_digit (ds @ rest) \<noteq> []"
  by (cases ds) (simp_all add: digits1_def)

lemma match_number_numeral:
  assumes "signed_numeral num"
  shows "match_number (num @ rest) \<noteq> None"
proof (cases "digits1 num")
  case True
  then obtain c r where num: "num = c # r" and c: "is_digit c"
    by (cases num) (auto simp: digits1_def)
  from c have "c \<noteq> CHR ''-''"
    using minus_no_digit by auto
  then show ?thesis
    using num c by (simp add: match_number_def)
next
  case False
  with assms have h: "take 1 num = ''-''" and d: "digits1 (drop 1 num)"
    by (auto simp: signed_numeral_def)
  then obtain r where num: "num = CHR ''-'' # r"
    by (cases num) auto
  with d have "digits1 r" by simp
  then have "takeWhile is_digit (r @ rest) \<noteq> []"
    by (rule takeWhile_digits1)
  then show ?thesis
    using num by (simp add: match_number_def)
qed

lemma search_from_None:
  "search_from tok left reply = None \<Longrightarrow>
     \<not> (\<exists>pre num rest. reply = pre @ num @ rest \<and> endswith (left @ pre) tok \<and> signed_numeral num)"
proof (induction reply arbitrary: left)
  case Nil
  then show ?case by (auto simp: signed_numeral_def digits1_def)
next
  case (Cons c cs)
  from Cons.prems have here: "\<not> (endswith left tok \<and> match_number (c # cs) \<noteq> None)"
    and later: "search_from tok (left @ [c]) cs = None"
    by (auto split: if_splits)
  show ?case
  proof
    assume "\<exists>pre num rest. c # cs = pre @ num @ rest \<and> endswith (left @ pre) tok \<and> signed_numeral num"
    then obtain pre num rest where split: "c # cs = pre @ num @ rest"
      and e: "endswith (left @ pre) tok" and n: "signed_numeral num"
      by blast
    show False
    proof (cases pre)
      case Nil
      with split e n here show False
        using match_number_numeral [of num rest] by auto
    next
      case (Cons d pre')
      with split have "cs = pre' @ num @ rest" and "d = c" by auto
      moreover from e Cons \<open>d = c\<close> have "endswith ((left @ [c]) @ pre') tok" by simp
      ultimately show False
        using Cons.IH [OF later] n by blast
    qed
  qed
qed

lemma search_from_Some:
  "search_from tok left reply = Some g \<Longrightarrow>
     \<exists>pre rest. reply = pre @ g @ rest \<and> endswith (left @ pre) tok \<and> signed_numeral g
       \<and> (rest = [] \<or> \<not> is_digit (hd rest))
       \<and> (\<forall>pre' num' rest'. reply = pre' @ num' @ rest' \<and> endswith (left @ pre') tok
             \<and> signed_numeral num' \<longrightarrow> length pre \<le> length pre')"
proof (induction reply arbitrary: left)
  case Nil
  then show ?case by simp
next
  case (Cons c cs)
  show ?case
  proof (cases "endswith left tok \<and> match_number (c # cs) \<noteq> None")
    case True
    with Cons.prems have "match_number (c # cs) = Some g" by simp
    from match_number_Some [OF this] obtain rest where
      "c # cs = g @ rest" "signed_numeral g" "rest = [] \<or> \<not> is_digit (hd rest)"
      by blast
    with True have "c # cs = [] @ g @ rest \<and> endswith (left @ []) tok \<and> signed_numeral g
       \<and> (rest = [] \<or> \<not> is_digit (hd rest))
       \<and> (\<forall>pre' num' rest'. c # cs = pre' @ num' @ rest' \<and> endswith (left @ pre') tok
             \<and> signed_numeral num' \<longrightarrow> length ([]::string) \<le> length pre')"
      by simp
    then show ?thesis by blast
  next
    case False
    with Cons.prems have later: "search_from tok (left @ [c]) cs = Some g"
      by (auto split: if_splits)
    from Cons.IH [OF later] obtain pre rest where cs: "cs = pre @ g @ rest"
      and e: "endswith ((left @ [c]) @ pre) tok" and n: "signed_numeral g"
      and r: "rest = [] \<or> \<not> is_digit (hd rest)"
      and least: "\<forall>pre' num' rest'. cs = pre' @ num' @ rest' \<and> endswith ((left @ [c]) @ pre') tok
             \<and> signed_numeral num' \<longrightarrow> length pre \<le> length pre'"
      by blast
    have "\<forall>pre' num' rest'. c # cs = pre' @ num' @ rest' \<and> endswith (left @ pre') tok
             \<and> signed_numeral num' \<longrightarrow> length (c # pre) \<le> length pre'"
    proof (intro allI impI)
      fix pre' num' rest'
      assume h: "c # cs = pre' @ num' @ rest' \<and> endswith (left @ pre') tok \<and> signed_numeral num'"
      show "length (c # pre) \<le> length pre'"
      proof (cases pre')
        case Nil
        with h False show ?thesis
          using match_number_numeral [of num' rest'] by auto
      next
        case (Cons d p)
        with h have "cs = p @ num' @ rest'" "d = c" by auto
        moreover from h Cons \<open>d = c\<close> have "endswith ((left @ [c]) @ p) tok" by simp
        ultimately have "length pre \<le> length p"
          using least h by blast
        with Cons show ?thesis by simp
      qed
    qed
    moreover have "c # cs = (c # pre) @ g @ rest" using cs by simp
    moreover have "endswith (left @ (c # pre)) tok" using e by simp
    ultimately show ?thesis using n r by blast
  qed
qed

lemma endswith_iff: "endswith t tok = (\<exists>pre. t = pre @ tok)"
proof
  assume "endswith t tok"
  then have "t = take (length t - length tok) t @ tok"
    by (metis append_take_drop_id endswith_def)
  then show "\<exists>pre. t = pre @ tok" ..
next
  assume "\<exists>pre. t = pre @ tok"
  then show "endswith t tok" by (auto simp: endswith_def)
qed

lemma re_search_None_iff:
  "(re_search tok reply = None) =
     (\<not> (\<exists>pre num rest. reply = pre @ tok @ num @ rest \<and> signed_numeral num))"
proof
  assume "re_search tok reply = None"
  then have no: "\<not> (\<exists>pre num rest. reply = pre @ num @ rest \<and> endswith ([] @ pre) tok \<and> signed_numeral num)"
    unfolding re_search_def by (rule search_from_None)
  show "\<not> (\<exists>pre num rest. reply = pre @ tok @ num @ rest \<and> signed_numeral num)"
  proof
    assume "\<exists>pre num rest. reply = pre @ tok @ num @ rest \<and> signed_numeral num"
    then obtain pre num rest where "reply = (pre @ tok) @ num @ rest" "signed_numeral num"
      by auto
    moreover have "endswith ([] @ (pre @ tok)) tok"
      by (simp add: endswith_def)
    ultimately show False using no by blast
  qed
next
  assume no: "\<not> (\<exists>pre num rest. reply = pre @ tok @ num @ rest \<and> signed_numeral num)"
  show "re_search tok reply = None"
  proof (rule ccontr)
    assume "re_search tok reply \<noteq> None"
    then obtain g where "search_from tok [] reply = Some g"
      by (auto simp: re_search_def)
    from search_from_Some [OF this] obtain pre rest where
      "reply = pre @ g @ rest" "endswith ([] @ pre) tok" "signed_numeral g"
      by blast
    moreover then obtain pre0 where "pre = pre0 @ tok"
      by (auto simp: endswith_iff)
    ultimately have "reply = pre0 @ tok @ g @ rest \<and> signed_numeral g" by simp
    with no show False by blast
  qed
qed

lemma re_search_Some:
  assumes "re_search tok reply = Some g"
  shows "\<exists>pre rest. reply = pre @ tok @ g @ rest \<and> signed_numeral g
       \<and> (rest = [] \<or> \<not> is_digit (hd rest))
       \<and> (\<forall>pre' num' rest'. reply = pre' @ tok @ num' @ rest' \<and> signed_numeral num'
             \<longrightarrow> length pre \<le> length pre')"
proof -
  from assms have "search_from tok [] reply = Some g"
    by (simp add: re_search_def)
  from search_from_Some [OF this] obtain p rest where t: "reply = p @ g @ rest"
    and e: "endswith ([] @ p) tok" and n: "signed_numeral g"
    and r: "rest = [] \<or> \<not> is_digit (hd rest)"
    and least: "\<forall>pre' num' rest'. reply = pre' @ num' @ rest' \<and> endswith ([] @ pre') tok
             \<and> signed_numeral num' \<longrightarrow> length p \<le> length pre'"
    by blast
  from e obtain pre where p: "p = pre @ tok"
    by (auto simp: endswith_iff)
  have "\<forall>pre' num' rest'. reply = pre' @ tok @ num' @ rest' \<and> signed_numeral num'
             \<longrightarrow> length pre \<le> length pre'"
  proof (intro allI impI)
    fix pre' num' rest'
    assume h: "reply = pre' @ tok @ num' @ rest' \<and> signed_numeral num'"
    then have "reply = (pre' @ tok) @ num' @ rest'" by simp
    moreover have "endswith ([] @ (pre' @ tok)) tok" by (simp add: endswith_def)
    ultimately have "length p \<le> length (pre' @ tok)"
      using least h by blast
    with p show "length pre \<le> length pre'" by simp
  qed
  moreover have "reply = pre @ tok @ g @ rest" using t p by simp
  ultimately show ?thesis using n r by blast
qed


lemma below_10: "d < 10 \<Longrightarrow> d \<in> {0, 1, 2, 3, 4, 5, 6, 7, 8, 9::nat}"
  by auto

lemma digit_val_digit_char: "d < 10 \<Longrightarrow> digit_val (digit_char d) = int d"
  using below_10 [of d] by (auto simp: digit_char_def digit_val_def)

lemma is_digit_digit_char: "is_digit (digit_char d)"
proof -
  have "d mod 10 < 10" by simp
  from below_10 [OF this] show ?thesis
    unfolding digit_char_def is_digit_def by auto
qed

lemma int_of_digits_snoc: "int_of_digits (ds @ [c]) = 10 * int_of_digits ds + digit_val c"
  by (simp add: int_of_digits_def)

lemma int_of_digits_str_nat: "int_of_digits (str_nat n) = int n"
proof (induction n rule: str_nat.induct)
  case (1 n)
  show ?case
  proof (cases "n < 10")
    case True
    then show ?thesis
      using int_of_digits_snoc [of "[]" "digit_char n"]
      by (simp add: str_nat.simps [of n] digit_val_digit_char int_of_digits_def)
  next
    case False
    with "1" have "int_of_digits (str_nat (n div 10)) = int (n div 10)" by simp
    with False show ?thesis
      by (simp add: str_nat.simps [of n] int_of_digits_snoc digit_val_digit_char
          zdiv_int zmod_int)
  qed
qed

lemma digits1_str_nat: "digits1 (str_nat n)"
proof (induction n rule: str_nat.induct)
  case (1 n)
  show ?case
  proof (cases "n < 10")
    case True
    then show ?thesis
      by (simp add: str_nat.simps [of n] digits1_def is_digit_digit_char)
  next
    case False
    with "1" have "digits1 (str_nat (n div 10))" by simp
    with False show ?thesis
      by (simp add: str_nat.simps [of n] digits1_def is_digit_digit_char)
  qed
qed

lemma int_of_str_digits1:
  "digits1 ds \<Longrightarrow>
     int_of_str ds = (if max_str_digits < length ds then Inl ValueError else Inr (int_of_digits ds))"
  using minus_no_digit by (cases ds) (auto simp: digits1_def int_of_str_def)

lemma filter_digits: "list_all is_digit ds \<Longrightarrow> filter is_digit ds = ds"
  by (induction ds) simp_all

lemma int_of_str_numeral:
  assumes "signed_numeral g"
  shows "int_of_str g =
     (if max_str_digits < length (filter is_digit g) then Inl ValueError
      else Inr (numeral_value g))"
proof (cases "digits1 g")
  case True
  then obtain c r where g: "g = c # r" and c: "is_digit c"
    by (cases g) (auto simp: digits1_def)
  from c have "c \<noteq> CHR ''-''"
    using minus_no_digit by auto
  then have "numeral_value g = int_of_digits g"
    by (simp add: numeral_value_def g)
  moreover from True have "filter is_digit g = g"
    by (simp add: digits1_def filter_digits)
  ultimately show ?thesis
    by (simp add: int_of_str_digits1 [OF True])
next
  case False
  with assms have h: "take 1 g = ''-''" and d: "digits1 (drop 1 g)"
    by (auto simp: signed_numeral_def)
  then obtain r where g: "g = CHR ''-'' # r"
    by (cases g) auto
  with d have r: "digits1 r" by simp
  then have "filter is_digit g = r"
    using minus_no_digit by (simp add: g digits1_def filter_digits)
  moreover have "numeral_value g = - int_of_digits r"
    by (simp add: numeral_value_def g)
  moreover from r have "r \<noteq> []"
    by (simp add: digits1_def)
  ultimately show ?thesis
    by (simp add: int_of_str_def g)
qed

lemma str_nat_no_minus: "take 1 (str_nat n) \<noteq> ''-''"
proof -
  from digits1_str_nat [of n] obtain c r where "str_nat n = c # r" "is_digit c"
    by (cases "str_nat n") (auto simp: digits1_def)
  then show ?thesis
    using minus_no_digit by auto
qed

lemma numeral_value_decimal_int: "numeral_value (decimal_int i) = i"
proof (cases "i < 0")
  case True
  then show ?thesis
    by (simp add: numeral_value_def decimal_int_def int_of_digits_str_nat)
next
  case False
  then show ?thesis
    using str_nat_no_minus [of "nat i"]
    by (simp add: numeral_value_def decimal_int_def int_of_digits_str_nat)
qed

lemma signed_numeral_decimal_int: "signed_numeral (decimal_int i)"
  by (simp add: signed_numeral_def decimal_int_def digits1_str_nat)

lemma digits_decimal_int: "length (filter is_digit (decimal_int i)) = digit_count i"
proof (cases "i < 0")
  case True
  then have "nat \<bar>i\<bar> = nat (- i)" by simp
  then show ?thesis
    using True minus_no_digit digits1_str_nat [of "nat (- i)"]
    by (simp add: decimal_int_def digit_count_def digits1_def filter_digits)
next
  case False
  then have "nat \<bar>i\<bar> = nat i" by simp
  then show ?thesis
    using False digits1_str_nat [of "nat i"]
    by (simp add: decimal_int_def digit_count_def digits1_def filter_digits)
qed

lemma int_of_str_str_int: "str_int i = Inr t \<Longrightarrow> int_of_str t = Inr i"
proof -
  assume "str_int i = Inr t"
  then have t: "t = decimal_int i" and l: "\<not> max_str_digits < digit_count i"
    by (auto simp: str_int_def split: if_splits)
  from l show ?thesis
    unfolding t
    by (simp add: int_of_str_numeral [OF signed_numeral_decimal_int] digits_decimal_int
        numeral_value_decimal_int)
qed

lemma getPosition_eq:
  "getPosition s =
     (parse_after ''TPE'' (re_sub (join [LF] (case incoming s of [] \<Rightarrow> [] | ls # rest \<Rightarrow> ls))),
      s\<lparr>trace := trace s @ [Wrote (''TPE'' @ [CR])], incoming := tl (incoming s)\<rparr>)"
  by (simp add: getPosition_def and_then_def ask_eq lift_def)

lemma parse_after_eq:
  "parse_after tok reply =
     (case re_search tok reply of None \<Rightarrow> Inr None | Some g \<Rightarrow> map_sum id Some (int_of_str g))"
  by (cases "re_search tok reply"; cases "int_of_str (the (re_search tok reply))")
    (simp_all add: parse_after_def)

lemmas parse_eval =
  parse_after_def re_search_def endswith_def match_number_def is_digit_def int_of_str_def
  int_of_digits_def digit_val_def max_str_digits_def

lemma re_sub_no_CR: "CR \<notin> set t \<Longrightarrow> re_sub t = t"
  by (induction t) (auto simp: match_prompt_def)

lemma digit_not_CR: "is_digit c \<Longrightarrow> c \<noteq> CR"
  by (auto simp: is_digit_def CR_def)

lemma re_search_after_token:
  assumes "list_all is_digit ds" "ds \<noteq> []"
  shows "re_search ''TPE'' (''TPE'' @ ds) = Some ds"
proof -
  from assms obtain c r where ds: "ds = c # r" and c: "is_digit c"
    by (cases ds) auto
  from c have m: "c \<noteq> CHR ''-''"
    using minus_no_digit by auto
  from assms have "takeWhile is_digit ds = ds"
    by (simp add: list_all_iff)
  with assms m have "match_number (c # r) = Some (c # r)"
    by (simp add: match_number_def ds)
  then show ?thesis
    by (simp add: re_search_def endswith_def ds)
qed

lemma getPosition_long_numeral:
  assumes "list_all is_digit ds" "max_str_digits < length ds"
  shows "getPosition (s\<lparr>incoming := [[''TPE'' @ ds]]\<rparr>) =
     (Inl ValueError, s\<lparr>trace := trace s @ [Wrote (''TPE'' @ [CR])], incoming := []\<rparr>)"
proof -
  from assms have ne: "ds \<noteq> []" by auto
  with assms have d1: "digits1 ds"
    by (simp add: digits1_def)
  from assms(1) have "CR \<notin> set ds"
    using digit_not_CR by (auto simp: list_all_iff)
  then have "CR \<notin> set (''TPE'' @ ds)"
    by (simp add: CR_def)
  then have "re_sub (''TPE'' @ ds) = ''TPE'' @ ds"
    by (rule re_sub_no_CR)
  moreover have "parse_after ''TPE'' (''TPE'' @ ds) = Inl ValueError"
    unfolding parse_after_def re_search_after_token [OF assms(1) ne]
    using assms(2) by (simp add: int_of_str_digits1 [OF d1])
  ultimately show ?thesis
    by (simp add: getPosition_eq)
qed

text \<open>
  C4, as amended. \<^verbatim>\<open>getPosition\<close> returns what \<open>parse_after\<close> makes of the reply that
  \<^verbatim>\<open>ask("TPE")\<close> gives. That is \<open>None\<close> exactly when no optionally signed decimal
  numeral stands right after some TPE in the reply. Otherwise the numeral read is the
  one right after a TPE, the whole of it (no digit follows it), at the leftmost TPE
  that has one: when it has at most 4300 digits \<^verbatim>\<open>getPosition\<close> returns the integer it
  denotes, and when it has more, \<^verbatim>\<open>int\<close> raises ValueError. The value of a numeral
  inverts the decimal notation, and \<^verbatim>\<open>int\<close> inverts \<^verbatim>\<open>str\<close>. A reply TPE-120 gives -120;
  the replies TPER and OK give \<open>None\<close>.
\<close>

theorem getPosition_parses:
  "(\<exists>reply s'. ask ''TPE'' s = (Inr reply, s')
       \<and> getPosition s = (parse_after ''TPE'' reply, s'))
   \<and> ((parse_after ''TPE'' reply = Inr None) =
        (\<not> (\<exists>pre num rest. reply = pre @ ''TPE'' @ num @ rest \<and> signed_numeral num)))
   \<and> ((\<exists>pre num rest. reply = pre @ ''TPE'' @ num @ rest \<and> signed_numeral num) \<longrightarrow>
        (\<exists>pre num rest. reply = pre @ ''TPE'' @ num @ rest \<and> signed_numeral num
           \<and> (rest = [] \<or> \<not> is_digit (hd rest))
           \<and> (\<forall>pre' num' rest'. reply = pre' @ ''TPE'' @ num' @ rest' \<and> signed_numeral num'
                 \<longrightarrow> length pre \<le> length pre')
           \<and> parse_after ''TPE'' reply =
               (if max_str_digits < length (filter is_digit num) then Inl ValueError
                else Inr (Some (numeral_value num)))))
   \<and> max_str_digits = 4300
   \<and> numeral_value (decimal_int i) = i
   \<and> (str_int i = Inr t \<longrightarrow> int_of_str t = Inr i)
   \<and> parse_after ''TPE'' ''TPE-120'' = Inr (Some (- 120))
   \<and> parse_after ''TPE'' ''TPER'' = Inr None
   \<and> parse_after ''TPE'' ''OK'' = Inr None"
proof -
  have a: "\<exists>reply s'. ask ''TPE'' s = (Inr reply, s')
       \<and> getPosition s = (parse_after ''TPE'' reply, s')"
    by (simp add: getPosition_eq ask_eq)
  have b: "(parse_after ''TPE'' reply = Inr None) =
        (\<not> (\<exists>pre num rest. reply = pre @ ''TPE'' @ num @ rest \<and> signed_numeral num))"
  proof -
    have "(parse_after ''TPE'' reply = Inr None) = (re_search ''TPE'' reply = None)"
      by (cases "re_search ''TPE'' reply"; cases "int_of_str (the (re_search ''TPE'' reply))")
        (simp_all add: parse_after_def)
    then show ?thesis
      by (simp only: re_search_None_iff)
  qed
  have c: "(\<exists>pre num rest. reply = pre @ ''TPE'' @ num @ rest \<and> signed_numeral num) \<longrightarrow>
        (\<exists>pre num rest. reply = pre @ ''TPE'' @ num @ rest \<and> signed_numeral num
           \<and> (rest = [] \<or> \<not> is_digit (hd rest))
           \<and> (\<forall>pre' num' rest'. reply = pre' @ ''TPE'' @ num' @ rest' \<and> signed_numeral num'
                 \<longrightarrow> length pre \<le> length pre')
           \<and> parse_after ''TPE'' reply =
               (if max_str_digits < length (filter is_digit num) then Inl ValueError
                else Inr (Some (numeral_value num))))"
  proof
    assume "\<exists>pre num rest. reply = pre @ ''TPE'' @ num @ rest \<and> signed_numeral num"
    then have "re_search ''TPE'' reply \<noteq> None"
      by (simp only: re_search_None_iff) blast
    then obtain g where g: "re_search ''TPE'' reply = Some g"
      by blast
    from re_search_Some [OF g] obtain pre rest where
      r: "reply = pre @ ''TPE'' @ g @ rest" and n: "signed_numeral g"
      and m: "rest = [] \<or> \<not> is_digit (hd rest)"
      and l: "\<forall>pre' num' rest'. reply = pre' @ ''TPE'' @ num' @ rest' \<and> signed_numeral num'
                 \<longrightarrow> length pre \<le> length pre'"
      by blast
    have "parse_after ''TPE'' reply =
               (if max_str_digits < length (filter is_digit g) then Inl ValueError
                else Inr (Some (numeral_value g)))"
      by (simp add: parse_after_eq g int_of_str_numeral [OF n])
    with r n m l
    show "\<exists>pre num rest. reply = pre @ ''TPE'' @ num @ rest \<and> signed_numeral num
           \<and> (rest = [] \<or> \<not> is_digit (hd rest))
           \<and> (\<forall>pre' num' rest'. reply = pre' @ ''TPE'' @ num' @ rest' \<and> signed_numeral num'
                 \<longrightarrow> length pre \<le> length pre')
           \<and> parse_after ''TPE'' reply =
               (if max_str_digits < length (filter is_digit num) then Inl ValueError
                else Inr (Some (numeral_value num)))"
      by blast
  qed
  have d: "parse_after ''TPE'' ''TPE-120'' = Inr (Some (- 120))"
    by (simp add: parse_eval)
  have e: "parse_after ''TPE'' ''TPER'' = Inr None"
    by (simp add: parse_eval)
  have f: "parse_after ''TPE'' ''OK'' = Inr None"
    by (simp add: parse_eval)
  have g: "str_int i = Inr t \<longrightarrow> int_of_str t = Inr i"
    using int_of_str_str_int by blast
  from a b c d e f g numeral_value_decimal_int [of i] max_str_digits_def show ?thesis
    by blast
qed

theorem getPosition_parses_witness:
  "(\<exists>pre num rest. ''*TPE-120'' = pre @ ''TPE'' @ num @ rest \<and> signed_numeral num
       \<and> parse_after ''TPE'' ''*TPE-120'' =
           (if max_str_digits < length (filter is_digit num) then Inl ValueError
            else Inr (Some (numeral_value num))))
   \<and> parse_after ''TPE'' ''*TPE-120'' = Inr (Some (- 120))
   \<and> str_int (- 120) = Inr ''-120'' \<and> int_of_str ''-120'' = Inr (- 120)"
proof -
  have ev: "parse_after ''TPE'' ''*TPE-120'' = Inr (Some (- 120))"
    by (simp add: parse_eval)
  have "''*TPE-120'' = ''*'' @ ''TPE'' @ ''-120'' @ [] \<and> signed_numeral ''-120''"
    by (simp add: signed_numeral_def digits1_def is_digit_def)
  then have ex: "\<exists>pre num rest. ''*TPE-120'' = pre @ ''TPE'' @ num @ rest \<and> signed_numeral num"
    by blast
  have st: "str_int (- 120) = Inr ''-120''"
    by (simp add: str_int_def digit_count_def decimal_int_def max_str_digits_def str_nat.simps
        digit_char_def)
  from ex ev st getPosition_parses [of fresh "''*TPE-120''" "- 120" "''-120''"]
  show ?thesis by blast
qed

text \<open>
  C4, as the claim states it, fails: a reply that is TPE followed by 4301 zeros has a
  numeral right after TPE, yet \<^verbatim>\<open>getPosition\<close> returns no integer: it raises ValueError.
\<close>

theorem getPosition_raises_beyond_digit_limit:
  "fst (getPosition (fresh\<lparr>incoming := [[''TPE'' @ replicate (Suc max_str_digits) (CHR ''0'')]]\<rparr>))
     = Inl ValueError
   \<and> signed_numeral (replicate (Suc max_str_digits) (CHR ''0''))
   \<and> Suc max_str_digits = 4301"
proof -
  have z: "list_all is_digit (replicate (Suc max_str_digits) (CHR ''0''))"
    by (simp add: list_all_iff is_digit_def)
  have l: "max_str_digits < length (replicate (Suc max_str_digits) (CHR ''0''))"
    by simp
  have "fst (getPosition (fresh\<lparr>incoming := [[''TPE'' @ replicate (Suc max_str_digits) (CHR ''0'')]]\<rparr>))
     = Inl ValueError"
    unfolding getPosition_long_numeral [OF z l] by simp
  moreover have "signed_numeral (replicate (Suc max_str_digits) (CHR ''0''))"
    using z by (simp add: signed_numeral_def digits1_def)
  moreover have "Suc max_str_digits = 4301"
    by (simp add: max_str_digits_def)
  ultimately show ?thesis
    by blast
qed

section \<open>Moving\<close>

lemma isMoving_eq: "isMoving s = (map_sum id (\<lambda>position. position = None) (fst (getPosition s)), snd (getPosition s))"
  unfolding isMoving_def by (rule and_then_returns)

text \<open>
  C6. In every state, \<^verbatim>\<open>isMoving\<close> returns True exactly when \<^verbatim>\<open>getPosition\<close>, run in
  the same state (so on the same reply), returns \<open>None\<close>, and False exactly when it
  returns an integer; both leave the same state behind.
\<close>

theorem isMoving_iff_no_position:
  "((fst (isMoving s) = Inr True) = (fst (getPosition s) = Inr None))
   \<and> ((fst (isMoving s) = Inr False) = (\<exists>n. fst (getPosition s) = Inr (Some n)))
   \<and> snd (isMoving s) = snd (getPosition s)"
proof -
  obtain r s' where g: "getPosition s = (r, s')"
    by (cases "getPosition s")
  then have m: "isMoving s = (map_sum id (\<lambda>position. position = None) r, s')"
    by (simp add: isMoving_eq)
  show ?thesis
  proof (cases r)
    case (Inl e)
    then show ?thesis by (simp add: g m)
  next
    case (Inr v)
    then show ?thesis by (cases v) (simp_all add: g m)
  qed
qed

section \<open>Normalizing the reply\<close>

lemma CR_LF_distinct: "CR \<noteq> LF" "CR \<noteq> CHR '' ''" "CR \<noteq> CHR ''>''" "CR \<noteq> CHR ''?''"
  "LF \<noteq> CHR '' ''" "LF \<noteq> CHR ''>''" "LF \<noteq> CHR ''?''"
  by (simp_all add: CR_def LF_def)

lemma match_prompt_pattern:
  "p \<in> set prompt_patterns \<Longrightarrow> match_prompt (p @ suf) = Some (length p)"
  by (auto simp: prompt_patterns_def match_prompt_def CR_LF_distinct)

lemma prompt_patterns_mem:
  "[CR, LF, LF] @ ''> '' \<in> set prompt_patterns"
  "[CR, LF, LF] @ ''? '' \<in> set prompt_patterns"
  "[CR, LF, LF] @ '' '' \<in> set prompt_patterns"
  by (simp_all add: prompt_patterns_def)

lemma match_prompt_Some:
  assumes "match_prompt t = Some n"
  shows "\<exists>p suf. p \<in> set prompt_patterns \<and> t = p @ suf \<and> n = length p"
proof -
  from assms have t3: "take 3 t = [CR, LF, LF]"
    by (auto simp: match_prompt_def split: if_splits)
  have t: "t = [CR, LF, LF] @ drop 3 t"
    using t3 append_take_drop_id [of 3 t] by simp
  show ?thesis
  proof (cases "(take 1 (drop 3 t) = ''>'' \<or> take 1 (drop 3 t) = ''?'') \<and> take 1 (drop 4 t) = '' ''")
    case True
    with assms t3 have n: "n = 5" by (simp add: match_prompt_def)
    from True have d4: "drop 4 t = '' '' @ drop 5 t"
      using append_take_drop_id [of 1 "drop 4 t"] by simp
    from True have "drop 3 t = take 1 (drop 3 t) @ drop 4 t"
      using append_take_drop_id [of 1 "drop 3 t"] by simp
    with True d4 have "drop 3 t = ''> '' @ drop 5 t \<or> drop 3 t = ''? '' @ drop 5 t"
      by auto
    then show ?thesis
    proof
      assume "drop 3 t = ''> '' @ drop 5 t"
      with t have "t = ([CR, LF, LF] @ ''> '') @ drop 5 t" by simp
      moreover have "n = length ([CR, LF, LF] @ ''> '')" using n by simp
      ultimately show ?thesis using prompt_patterns_mem(1) by blast
    next
      assume "drop 3 t = ''? '' @ drop 5 t"
      with t have "t = ([CR, LF, LF] @ ''? '') @ drop 5 t" by simp
      moreover have "n = length ([CR, LF, LF] @ ''? '')" using n by simp
      ultimately show ?thesis using prompt_patterns_mem(2) by blast
    qed
  next
    case False
    with assms t3 have n: "n = 4" and sp: "take 1 (drop 3 t) = '' ''"
      by (auto simp: match_prompt_def split: if_splits)
    from sp have "drop 3 t = '' '' @ drop 4 t"
      using append_take_drop_id [of 1 "drop 3 t"] by simp
    with t have "t = ([CR, LF, LF] @ '' '') @ drop 4 t"
      by simp
    moreover have "n = length ([CR, LF, LF] @ '' '')" using n by simp
    ultimately show ?thesis using prompt_patterns_mem(3) by blast
  qed
qed

lemma has_prompt_iff:
  "has_prompt t = (\<exists>pre p suf. p \<in> set prompt_patterns \<and> t = pre @ p @ suf)"
proof (induction t)
  case Nil
  then show ?case by (auto simp: prompt_patterns_def)
next
  case (Cons c cs)
  show ?case
  proof
    assume "has_prompt (c # cs)"
    then consider "match_prompt (c # cs) \<noteq> None" | "has_prompt cs" by auto
    then show "\<exists>pre p suf. p \<in> set prompt_patterns \<and> c # cs = pre @ p @ suf"
    proof cases
      case 1
      then obtain n where "match_prompt (c # cs) = Some n" by auto
      from match_prompt_Some [OF this] obtain p suf where
        "p \<in> set prompt_patterns" "c # cs = [] @ p @ suf" by auto
      then show ?thesis by blast
    next
      case 2
      with Cons.IH obtain pre p suf where "p \<in> set prompt_patterns" "cs = pre @ p @ suf"
        by blast
      then have "p \<in> set prompt_patterns \<and> c # cs = (c # pre) @ p @ suf" by simp
      then show ?thesis by blast
    qed
  next
    assume "\<exists>pre p suf. p \<in> set prompt_patterns \<and> c # cs = pre @ p @ suf"
    then obtain pre p suf where p: "p \<in> set prompt_patterns" and e: "c # cs = pre @ p @ suf"
      by blast
    show "has_prompt (c # cs)"
    proof (cases pre)
      case Nil
      with e have "c # cs = p @ suf" by simp
      with match_prompt_pattern [OF p, of suf] have "match_prompt (c # cs) \<noteq> None"
        by simp
      then show ?thesis by simp
    next
      case (Cons d pre')
      with e have "cs = pre' @ p @ suf" by simp
      with p Cons.IH have "has_prompt cs" by blast
      then show ?thesis by simp
    qed
  qed
qed

lemma re_sub_unchanged: "\<not> has_prompt t \<Longrightarrow> re_sub t = t"
  by (induction t) auto

lemma match_prompt_short:
  "u \<noteq> [] \<Longrightarrow> p \<in> set prompt_patterns \<Longrightarrow> match_prompt (u @ p @ suf) = match_prompt u"
proof -
  assume u: "u \<noteq> []" and p: "p \<in> set prompt_patterns"
  then obtain r where pr: "p @ suf = CR # r"
    by (auto simp: prompt_patterns_def)
  show ?thesis
  proof (cases u)
    case Nil
    with u show ?thesis by simp
  next
    case u1: (Cons a u')
    show ?thesis
    proof (cases u')
      case Nil
      with u1 pr show ?thesis by (simp add: match_prompt_def CR_LF_distinct)
    next
      case u2: (Cons b u'')
      show ?thesis
      proof (cases u'')
        case Nil
        with u1 u2 pr show ?thesis by (simp add: match_prompt_def CR_LF_distinct)
      next
        case u3: (Cons c u''')
        show ?thesis
        proof (cases u''')
          case Nil
          with u1 u2 u3 pr show ?thesis by (simp add: match_prompt_def CR_LF_distinct)
        next
          case u4: (Cons d v)
          show ?thesis
          proof (cases v)
            case Nil
            with u1 u2 u3 u4 pr show ?thesis by (simp add: match_prompt_def CR_LF_distinct)
          next
            case (Cons e w)
            with u1 u2 u3 u4 show ?thesis by (simp add: match_prompt_def)
          qed
        qed
      qed
    qed
  qed
qed

lemma re_sub_strips:
  "\<not> has_prompt pre \<Longrightarrow> p \<in> set prompt_patterns \<Longrightarrow> re_sub (pre @ p @ suf) = pre @ re_sub suf"
proof (induction pre)
  case Nil
  from Nil.prems(2) obtain c cs where pc: "p @ suf = c # cs"
    by (auto simp: prompt_patterns_def)
  from match_prompt_pattern [OF Nil.prems(2), of suf] pc
  have m: "match_prompt (c # cs) = Some (length p)" by simp
  from pc have "drop (length p - 1) cs = drop (length p) (p @ suf)"
    using Nil.prems(2) by (auto simp: prompt_patterns_def)
  then have "drop (length p - 1) cs = suf" by simp
  with m pc show ?case by simp
next
  case (Cons c pre)
  from Cons.prems have no: "match_prompt (c # pre) = None" and rest: "\<not> has_prompt pre"
    by auto
  have "match_prompt ((c # pre) @ p @ suf) = match_prompt (c # pre)"
    using Cons.prems(2) by (intro match_prompt_short) simp_all
  with no have "match_prompt (c # (pre @ p @ suf)) = None" by simp
  then have "re_sub (c # (pre @ p @ suf)) = c # re_sub (pre @ p @ suf)" by simp
  with Cons.IH [OF rest Cons.prems(2)] show ?case by simp
qed

text \<open>
  C5, as amended. \<^verbatim>\<open>read\<close> joins the lines of the reply with a single newline and
  removes, from left to right, each \<^verbatim>\<open>\r\n\n\<close> that is followed by a space or by a
  prompt character (\<^verbatim>\<open>>\<close> or \<^verbatim>\<open>?\<close>) and a space, together with what follows it so far:
  the text before the first such match stays, and so does a whole text that holds no
  such match. The reply \<^verbatim>\<open>OK\r\n\n> \<close> becomes OK.
\<close>

theorem read_normalizes:
  "fst (read s) = Inr (re_sub (join [LF] (case incoming s of [] \<Rightarrow> [] | ls # rest \<Rightarrow> ls)))
   \<and> join [LF] [x] = x
   \<and> join [LF] (x # y # ys) = x @ [LF] @ join [LF] (y # ys)
   \<and> fst (read (s\<lparr>incoming := [[''OK'' @ [CR, LF, LF] @ ''> '']]\<rparr>)) = Inr ''OK''
   \<and> (has_prompt t = (\<exists>pre p suf. p \<in> set prompt_patterns \<and> t = pre @ p @ suf))
   \<and> (\<not> has_prompt t \<longrightarrow> re_sub t = t)
   \<and> (\<not> has_prompt pre \<and> p \<in> set prompt_patterns \<longrightarrow>
        re_sub (pre @ p @ suf) = pre @ re_sub suf)"
proof -
  have "fst (read (s\<lparr>incoming := [[''OK'' @ [CR, LF, LF] @ ''> '']]\<rparr>)) = Inr ''OK''"
    by (simp add: read_eq match_prompt_def CR_LF_distinct)
  then show ?thesis
    using has_prompt_iff [of t] re_sub_unchanged [of t] re_sub_strips [of pre p suf]
    by (simp add: read_eq)
qed

theorem read_normalizes_witness:
  "re_sub (''OK'' @ [CR, LF, LF]) = ''OK'' @ [CR, LF, LF]
   \<and> re_sub (''OK'' @ ([CR, LF, LF] @ ''? '') @ ''TPE5'') = ''OK'' @ re_sub ''TPE5''"
proof -
  have a: "\<not> has_prompt (''OK'' @ [CR, LF, LF])"
    by (simp add: match_prompt_def CR_LF_distinct)
  have b: "\<not> has_prompt ''OK''"
    by (simp add: match_prompt_def CR_LF_distinct)
  have c: "[CR, LF, LF] @ ''? '' \<in> set prompt_patterns"
    by (simp add: prompt_patterns_def)
  from a b c
    read_normalizes [of "SerialAdapter [] 9600 NaN []" "[]" "[]" "[]" "''OK'' @ [CR, LF, LF]"
      "''OK''" "[CR, LF, LF] @ ''? ''" "''TPE5''"]
  show ?thesis by blast
qed

text \<open>
  C5, as the claim states it, fails: a reply that ends in the bare terminator
  \<^verbatim>\<open>\r\n\n\<close>, with no prompt after it, keeps the terminator.
\<close>

theorem read_keeps_bare_terminator:
  "fst (read (SerialAdapter [] 9600 NaN [[''OK'' @ [CR, LF, LF]]])) = Inr (''OK'' @ [CR, LF, LF])
   \<and> fst (read (SerialAdapter [] 9600 NaN [[''OK'' @ [CR, LF, LF]]])) \<noteq> Inr ''OK''"
  by (simp add: read_eq SerialAdapter_def match_prompt_def CR_LF_distinct)

section \<open>Angles and counts\<close>

lemma degreesPerCount_value: "degreesPerCount = Finite False 8301034833169298 (- 64)"
  by (simp add: degreesPerCount_def float_literal_def binary64_eval)

lemma reciprocal_value:
  "float_pow_neg1 degreesPerCount = Inr (Finite False 4886718345671111 (- 41))"
  by (simp add: degreesPerCount_value binary64_eval)

lemma literal_0_0004: "float_literal 4 10000 = Finite False 7378697629483821 (- 64)"
  by (simp add: float_literal_def binary64_eval)

lemma literal_1_8: "float_literal 18 10 = Finite False 8106479329266893 (- 52)"
  by (simp add: float_literal_def binary64_eval)

lemma product_0_0004:
  "float_mul (Finite False 7378697629483821 (- 64)) (Finite False 4886718345671111 (- 41))
     = Finite False 8006399337547549 (- 53)"
  by (simp add: binary64_eval)

lemma quotient_0_0004:
  "float_div (Finite False 7378697629483821 (- 64)) (Finite False 8301034833169298 (- 64))
     = Inr (Finite False 8006399337547549 (- 53))"
  by (simp add: binary64_eval)

lemma product_1_8:
  "float_mul (Finite False 8106479329266893 (- 52)) (Finite False 4886718345671111 (- 41))
     = Finite False 8796093022208000 (- 41)"
  by (simp add: binary64_eval)

lemma trunc_0_88: "int_of_float (Finite False 8006399337547549 (- 53)) = Inr 0"
  by (simp add: int_of_float.simps signed_def)

lemma round_0_88: "py_round (Finite False 8006399337547549 (- 53)) = Inr 1"
  by (simp add: py_round.simps signed_def round_half_even_def)

lemma trunc_4000: "int_of_float (Finite False 8796093022208000 (- 41)) = Inr 4000"
  by (simp add: int_of_float.simps signed_def)

lemma setPosition_int:
  "setPosition (PyInt c) s =
     (if max_str_digits < digit_count c then (Inl ValueError, s)
      else (Inr (), s\<lparr>trace := trace s @ [Wrote (''D'' @ decimal_int c @ [CR])]\<rparr>))"
  by (simp add: setPosition_def py_int_def and_then_lift_Inr and_then_lift_Inl str_int_def
      write_cmd_eq)

lemma setPosition_small:
  "setPosition (PyInt 0) s = (Inr (), s\<lparr>trace := trace s @ [Wrote (''D0'' @ [CR])]\<rparr>)"
  "setPosition (PyInt 1) s = (Inr (), s\<lparr>trace := trace s @ [Wrote (''D1'' @ [CR])]\<rparr>)"
  "setPosition (PyInt 4000) s = (Inr (), s\<lparr>trace := trace s @ [Wrote (''D4000'' @ [CR])]\<rparr>)"
  by (simp_all add: setPosition_int digit_count_small decimal_int_small max_str_digits_def)

lemma angle_counts_float:
  "angle_counts (PyFloat a) = int_of_float (float_mul a (Finite False 4886718345671111 (- 41)))"
  by (simp add: angle_counts_def reciprocal_value num_mul_def py_float_def)

lemma written_fresh: "written fresh = []"
  by (simp add: fresh_def written_def SerialAdapter_def)

lemma written_trace_update: "written (s\<lparr>trace := es\<rparr>) = written_of es"
  by (simp add: written_def)

text \<open>
  C2, as amended. For every float \<open>a\<close>, \<^verbatim>\<open>setAngle(a)\<close> is \<^verbatim>\<open>setPosition\<close> of
  \<^verbatim>\<open>int(a * 0.00045 ** -1)\<close>: the product of \<open>a\<close> with the reciprocal factor
  2222.222222222222 (the double \<open>4886718345671111 * 2\<^sup>-\<^sup>4\<^sup>1\<close>), truncated toward zero,
  and the exception of \<^verbatim>\<open>int\<close>, with nothing written, when the product is NaN or
  infinite. \<^verbatim>\<open>setPosition(c)\<close> writes D and the decimal numeral of \<open>c\<close>, unless \<open>c\<close> has
  more than 4300 digits: then \<^verbatim>\<open>str\<close> raises ValueError and nothing is written.
  \<^verbatim>\<open>setAngle(1.8)\<close> writes D4000.
\<close>

theorem setAngle_truncates:
  "setAngle (PyFloat a) s =
     (case int_of_float (float_mul a (Finite False 4886718345671111 (- 41))) of
        Inl e \<Rightarrow> (Inl e, s)
      | Inr c \<Rightarrow> setPosition (PyInt c) s)
   \<and> float_pow_neg1 degreesPerCount = Inr (Finite False 4886718345671111 (- 41))
   \<and> int_of_float (Finite sg m e) = Inr (signed sg ((int m * 2 ^ nat e) div 2 ^ nat (- e)))
   \<and> setPosition (PyInt c) s =
       (if max_str_digits < digit_count c then (Inl ValueError, s)
        else (Inr (), s\<lparr>trace := trace s @ [Wrote (''D'' @ decimal_int c @ [CR])]\<rparr>))
   \<and> setAngle (PyFloat (float_literal 18 10)) s =
       (Inr (), s\<lparr>trace := trace s @ [Wrote (''D4000'' @ [CR])]\<rparr>)"
proof -
  have a: "setAngle (PyFloat a) s =
     (case int_of_float (float_mul a (Finite False 4886718345671111 (- 41))) of
        Inl e \<Rightarrow> (Inl e, s)
      | Inr c \<Rightarrow> setPosition (PyInt c) s)"
    by (simp add: setAngle_def and_then_def lift_def angle_counts_float split: sum.splits)
  have b: "setAngle (PyFloat (float_literal 18 10)) s =
       (Inr (), s\<lparr>trace := trace s @ [Wrote (''D4000'' @ [CR])]\<rparr>)"
    by (simp add: setAngle_def and_then_def lift_def angle_counts_float literal_1_8
        product_1_8 trunc_4000 setPosition_small)
  from a b reciprocal_value setPosition_int [of c s] int_of_float.simps(3) [of sg m e]
  show ?thesis
    by (intro conjI) (simp_all only:)
qed

text \<open>
  C2, as the claim states it, fails: for the angle 0.0004 the source truncates
  0.888888888888889 to 0 and writes D0, where \<^verbatim>\<open>setPosition(round(0.0004 / 0.00045))\<close>
  writes D1.
\<close>

theorem setAngle_not_rounded:
  "written (snd (setAngle (PyFloat (float_literal 4 10000)) fresh)) = [''D0'' @ [CR]]
   \<and> written (snd (claimed_setAngle (PyFloat (float_literal 4 10000)) fresh)) = [''D1'' @ [CR]]
   \<and> written (snd (setAngle (PyFloat (float_literal 4 10000)) fresh))
       \<noteq> written (snd (claimed_setAngle (PyFloat (float_literal 4 10000)) fresh))"
proof -
  have a: "setAngle (PyFloat (float_literal 4 10000)) fresh
      = (Inr (), fresh\<lparr>trace := trace fresh @ [Wrote (''D0'' @ [CR])]\<rparr>)"
    by (simp add: setAngle_def and_then_def lift_def angle_counts_float literal_0_0004
        product_0_0004 trunc_0_88 setPosition_small)
  have "claimed_counts (PyFloat (float_literal 4 10000)) = Inr 1"
    by (simp add: claimed_counts_def py_float_def literal_0_0004
        degreesPerCount_value [unfolded degreesPerCount_def] quotient_0_0004 round_0_88)
  then have b: "claimed_setAngle (PyFloat (float_literal 4 10000)) fresh
      = (Inr (), fresh\<lparr>trace := trace fresh @ [Wrote (''D1'' @ [CR])]\<rparr>)"
    by (simp add: claimed_setAngle_def and_then_lift_Inr setPosition_small)
  have t: "trace fresh = []"
    by (simp add: fresh_def SerialAdapter_def)
  show ?thesis
    by (simp add: a b t written_trace_update)
qed

section \<open>The conversion factor\<close>

lemma quotient_90_200000: "float_literal 90 200000 = Finite False 8301034833169298 (- 64)"
  by (simp add: float_literal_def binary64_eval)

lemma quotient_360_800000: "float_literal 360 800000 = Finite False 8301034833169298 (- 64)"
  by (simp add: float_literal_def binary64_eval)

lemma quotient_90_4000: "float_literal 90 4000 = Finite False 6485183463413514 (- 58)"
  by (simp add: float_literal_def binary64_eval)

lemma literal_90: "float_literal 900 10 = Finite False 6333186975989760 (- 46)"
  by (simp add: float_literal_def binary64_eval)

lemma float_of_int_4000: "float_of_int 4000 = Inr (Finite False 8796093022208000 (- 41))"
  by (simp add: float_of_int_def binary64_eval)

lemma float_of_int_200000: "float_of_int 200000 = Inr (Finite False 6871947673600000 (- 35))"
  by (simp add: float_of_int_def binary64_eval)

lemma product_4000:
  "float_mul (Finite False 8796093022208000 (- 41)) (Finite False 8301034833169298 (- 64))
     = Finite False 8106479329266893 (- 52)"
  by (simp add: binary64_eval)

lemma product_200000:
  "float_mul (Finite False 6871947673600000 (- 35)) (Finite False 8301034833169298 (- 64))
     = Finite False 6333186975989760 (- 46)"
  by (simp add: binary64_eval)

lemma degrees_of_4000: "num_mul (PyInt 4000) degreesPerCount = Inr (float_literal 18 10)"
  by (simp add: num_mul_def py_float_def float_of_int_4000 degreesPerCount_value product_4000
      literal_1_8)

lemma degrees_of_200000: "num_mul (PyInt 200000) degreesPerCount = Inr (float_literal 900 10)"
  by (simp add: num_mul_def py_float_def float_of_int_200000 degreesPerCount_value
      product_200000 literal_90)

lemma to_degrees_Some:
  "fst (to_degrees (Some c) s) = map_sum id Some (num_mul (PyInt c) degreesPerCount)"
  by (cases "num_mul (PyInt c) degreesPerCount")
    (simp_all add: to_degrees_def and_then_def lift_def returns_def)

text \<open>
  C3, as amended. \<^verbatim>\<open>degreesPerCount\<close> is the double nearest to 0.00045, which is
  90/200000 and 360/800000 degrees per count: 200000 counts are 90 degrees, and 4000
  counts are 1.8 degrees. \<^verbatim>\<open>getAngle\<close> and \<^verbatim>\<open>getAngleError\<close> multiply the counts by this
  factor, and \<^verbatim>\<open>setAngle\<close> multiplies the angle by its reciprocal.
\<close>

theorem degreesPerCount_is_90_per_200000:
  "degreesPerCount = float_literal 45 100000
   \<and> float_literal 90 200000 = degreesPerCount
   \<and> float_literal 360 800000 = degreesPerCount
   \<and> num_mul (PyInt 200000) degreesPerCount = Inr (float_literal 900 10)
   \<and> num_mul (PyInt 4000) degreesPerCount = Inr (float_literal 18 10)
   \<and> getAngle = and_then getPosition to_degrees
   \<and> getAngleError = and_then getPositionError to_degrees
   \<and> fst (to_degrees (Some c) s) = map_sum id Some (num_mul (PyInt c) degreesPerCount)
   \<and> angle_counts (PyFloat a)
       = int_of_float (float_mul a (Finite False 4886718345671111 (- 41)))
   \<and> float_pow_neg1 degreesPerCount = Inr (Finite False 4886718345671111 (- 41))"
  using degreesPerCount_def quotient_90_200000 quotient_360_800000 degreesPerCount_value
    degrees_of_200000 degrees_of_4000 getAngle_def getAngleError_def to_degrees_Some [of c s]
    angle_counts_float [of a] reciprocal_value
  by (intro conjI) (simp_all only:)

text \<open>
  C3, as the claim states it, fails: 90/4000 is 0.0225, not the factor 0.00045, and
  4000 counts times the factor are 1.8 degrees, not 90.
\<close>

theorem degreesPerCount_not_90_per_4000:
  "float_literal 90 4000 \<noteq> degreesPerCount
   \<and> num_mul (PyInt 4000) degreesPerCount \<noteq> Inr (float_literal 900 10)"
proof -
  have "float_literal 90 4000 \<noteq> degreesPerCount"
    unfolding quotient_90_4000 degreesPerCount_value by simp
  moreover have "num_mul (PyInt 4000) degreesPerCount \<noteq> Inr (float_literal 900 10)"
    unfolding degrees_of_4000 literal_1_8 literal_90 by simp
  ultimately show ?thesis by (rule conjI)
qed

section \<open>What goes on the wire\<close>

lemma written_trace: "written (s\<lparr>trace := trace s @ es\<rparr>) = written s @ written_of es"
  by (simp add: written_def written_append)

lemma snd_and_then_returns: "snd (and_then m (\<lambda>v. returns (g v)) s) = snd (m s)"
  by (simp add: and_then_returns)

lemma snd_call_stmt: "snd (call_stmt m s) = snd (m s)"
  unfolding call_stmt_def by (rule snd_and_then_returns)

lemma written_write_cmd: "written (snd (write_cmd c s)) = written s @ [c @ [CR]]"
  by (simp add: write_cmd_eq written_trace)

lemma written_ask: "written (snd (ask c s)) = written s @ [c @ [CR]]"
  by (simp add: ask_eq written_def written_append)

lemma upper_not_CR: "is_upper c \<Longrightarrow> c \<noteq> CR"
  by (auto simp: is_upper_def CR_def)

lemma decimal_char_not_upper: "decimal_char c \<Longrightarrow> \<not> is_upper c \<and> c \<noteq> CR"
  by (auto simp: decimal_char_def is_upper_def CR_def)

lemma decimal_not_upper:
  "decimal_argument a \<Longrightarrow> list_all (\<lambda>c. \<not> is_upper c) a \<and> CR \<notin> set a"
  unfolding decimal_argument_def list_all_iff
  using decimal_char_not_upper by blast

lemma nonfinite_not_upper:
  "nonfinite_argument a \<Longrightarrow> list_all (\<lambda>c. \<not> is_upper c) a \<and> CR \<notin> set a"
  by (auto simp: nonfinite_argument_def is_upper_def CR_def)

lemma takeWhile_none: "list_all (\<lambda>c. \<not> P c) a \<Longrightarrow> takeWhile P a = []"
  by (cases a) simp_all

lemma dropWhile_none: "list_all (\<lambda>c. \<not> P c) a \<Longrightarrow> dropWhile P a = a"
  by (cases a) simp_all

lemma wire_with_command:
  assumes "m \<noteq> []" and "list_all is_upper m" and "list_all (\<lambda>c. \<not> is_upper c) a"
    and "CR \<notin> set a" and "P a"
  shows "wire_with P (m @ a @ [CR])"
proof -
  from assms(2) have up: "\<And>x. x \<in> set m \<Longrightarrow> is_upper x"
    by (simp add: list_all_iff)
  have tw: "takeWhile is_upper (m @ a) = m"
    using up takeWhile_none [OF assms(3)] by (simp add: takeWhile_append2)
  have dw: "dropWhile is_upper (m @ a) = a"
    using up dropWhile_none [OF assms(3)] by (simp add: dropWhile_append2)
  have "CR \<notin> set m"
    using up upper_not_CR by blast
  with assms(4) have no: "CR \<notin> set (m @ a)" by simp
  have bl: "butlast (m @ a @ [CR]) = m @ a"
    by (simp add: butlast_append)
  show ?thesis
    unfolding wire_with_def command_with_def bl tw dw
    using assms(1,5) no by simp
qed

lemma wire_with_mono: "wire_with P t \<Longrightarrow> (\<And>a. P a \<Longrightarrow> R a) \<Longrightarrow> wire_with R t"
  by (simp add: wire_with_def command_with_def)

lemma decimal_chars:
  "decimal_char CHR ''0''" "decimal_char CHR ''1''" "decimal_char CHR ''3''"
  "decimal_char CHR ''.''" "decimal_char CHR ''e''" "decimal_char CHR ''-''"
  "decimal_char CHR ''+''"
  by (simp_all add: decimal_char_def)

lemma decimal_Nil: "decimal_argument []"
  by (simp add: decimal_argument_def)

lemma decimal_Cons: "decimal_argument (c # a) = (decimal_char c \<and> decimal_argument a)"
  by (simp add: decimal_argument_def)

lemma decimal_append: "decimal_argument (a @ b) = (decimal_argument a \<and> decimal_argument b)"
  by (simp add: decimal_argument_def)

lemma wire_literal:
  "m \<noteq> [] \<Longrightarrow> list_all is_upper m \<Longrightarrow> decimal_argument a \<Longrightarrow> wire_text (m @ a @ [CR])"
  unfolding wire_text_def
  using decimal_not_upper [of a] by (intro wire_with_command) simp_all

lemma wire_literals:
  "wire_text (''RESET'' @ [] @ [CR])" "wire_text (''DRIVE'' @ ''1'' @ [CR])"
  "wire_text (''DRIVE'' @ ''0'' @ [CR])" "wire_text (''TASF'' @ [] @ [CR])"
  "wire_text (''TPE'' @ [] @ [CR])" "wire_text (''TPER'' @ [] @ [CR])"
  "wire_text (''GO'' @ [] @ [CR])" "wire_text (''S'' @ [] @ [CR])"
  "wire_text (''K'' @ [] @ [CR])" "wire_text (''MA'' @ ''1'' @ [CR])"
  "wire_text (''MA'' @ ''0'' @ [CR])" "wire_text (''MC'' @ ''0'' @ [CR])"
  "wire_text (''LH'' @ ''1'' @ [CR])" "wire_text (''LH'' @ ''0'' @ [CR])"
  "wire_text (''ECHO'' @ ''1'' @ [CR])" "wire_text (''ECHO'' @ ''0'' @ [CR])"
  "wire_text (''AA'' @ ''1.0'' @ [CR])" "wire_text (''A'' @ ''1.0'' @ [CR])"
  "wire_text (''V'' @ ''3.0'' @ [CR])"
  by (rule wire_literal; simp add: is_upper_def decimal_Nil decimal_Cons decimal_chars)+

lemmas wire_texts = wire_literals [simplified]

lemma decimal_digit: "is_digit c \<Longrightarrow> decimal_char c"
  by (auto simp: is_digit_def decimal_char_def)

lemma decimal_digits: "list_all is_digit ds \<Longrightarrow> decimal_argument ds"
  unfolding decimal_argument_def list_all_iff
  using decimal_digit by blast

lemma decimal_str_nat: "decimal_argument (str_nat n)"
  using digits1_str_nat [of n] by (simp add: digits1_def decimal_digits)

lemma decimal_decimal_int: "decimal_argument (decimal_int i)"
  by (simp add: decimal_int_def decimal_Cons decimal_chars decimal_str_nat)

lemma decimal_take: "decimal_argument a \<Longrightarrow> decimal_argument (take n a)"
  unfolding decimal_argument_def list_all_iff by (blast dest: in_set_takeD)

lemma decimal_drop: "decimal_argument a \<Longrightarrow> decimal_argument (drop n a)"
  unfolding decimal_argument_def list_all_iff by (blast dest: in_set_dropD)

lemma decimal_zeros: "decimal_argument (replicate n (CHR ''0''))"
  by (simp add: decimal_argument_def list_all_iff decimal_chars)

lemma decimal_strip_zeros: "decimal_argument a \<Longrightarrow> decimal_argument (strip_zeros a)"
  unfolding decimal_argument_def list_all_iff strip_zeros_def
  by (auto dest: set_dropWhileD)

lemma decimal_exponent_text: "decimal_argument (exponent_text x)"
  by (simp add: exponent_text_def two_digits_def decimal_Cons decimal_append decimal_chars
      decimal_str_nat)

lemma decimal_format_repr: "decimal_argument ds \<Longrightarrow> decimal_argument (format_repr ds decpt)"
  unfolding format_repr_def
  by (simp add: decimal_append decimal_Cons decimal_Nil decimal_chars decimal_take
      decimal_drop decimal_zeros decimal_exponent_text)

lemma decimal_float_repr: "decimal_argument (float_repr (Finite s m e))"
proof -
  obtain d k where dk: "shortest_decimal 1 m e = (d, k)"
    by (cases "shortest_decimal 1 m e")
  have "decimal_argument (repr_digits (d, k))"
    by (simp add: decimal_format_repr decimal_strip_zeros decimal_str_nat)
  with dk show ?thesis
    by (simp add: float_repr.simps decimal_append decimal_Cons decimal_Nil decimal_chars)
qed

lemma float_repr_argument:
  "decimal_argument (float_repr f) \<or> (\<not> finite_num (PyFloat f) \<and> nonfinite_argument (float_repr f))"
proof (cases f)
  case (Finite s m e)
  then show ?thesis by (simp add: decimal_float_repr)
next
  case (Infinity s)
  then show ?thesis by (simp add: float_repr.simps nonfinite_argument_def)
next
  case NaN
  then show ?thesis by (simp add: float_repr.simps nonfinite_argument_def)
qed

lemma round_binary64_not_NaN: "round_binary64 s p q x \<noteq> NaN"
  by (simp add: round_binary64_def binary64_at_def binary64_pack_def binary64_range_def)

lemma float_of_int_Finite: "float_of_int i = Inr f \<Longrightarrow> \<exists>s m e. f = Finite s m e"
  using round_binary64_not_NaN [of "i < 0" "nat \<bar>i\<bar>" 1 0]
  by (cases "round_binary64 (i < 0) (nat \<bar>i\<bar>) 1 0") (auto simp: float_of_int_def)

lemma py_float_argument:
  "py_float a = Inr f \<Longrightarrow>
     decimal_argument (float_repr f) \<or> (\<not> finite_num a \<and> nonfinite_argument (float_repr f))"
proof (cases a)
  case (PyInt i)
  assume "py_float a = Inr f"
  with PyInt have "float_of_int i = Inr f" by (simp add: py_float_def)
  from float_of_int_Finite [OF this] show ?thesis
    by (auto simp: decimal_float_repr)
next
  case (PyFloat g)
  assume "py_float a = Inr f"
  with PyFloat have "g = f" by (simp add: py_float_def)
  with PyFloat show ?thesis
    using float_repr_argument [of f] by simp
qed

lemma float_setter_writes:
  assumes "m \<noteq> []" and "list_all is_upper m"
  shows "\<exists>new. written (snd (and_then (lift (py_float a)) (\<lambda>v. write_cmd (m @ float_repr v)) s))
            = written s @ new
          \<and> list_all (wire_with (\<lambda>t. decimal_argument t \<or> (\<not> finite_num a \<and> nonfinite_argument t))) new"
proof (cases "py_float a")
  case (Inl e)
  then show ?thesis by (simp add: and_then_lift_Inl)
next
  case (Inr f)
  from py_float_argument [OF Inr]
  have ok: "decimal_argument (float_repr f) \<or> (\<not> finite_num a \<and> nonfinite_argument (float_repr f))" .
  then have "list_all (\<lambda>c. \<not> is_upper c) (float_repr f) \<and> CR \<notin> set (float_repr f)"
    using decimal_not_upper nonfinite_not_upper by blast
  with assms ok
  have "wire_with (\<lambda>t. decimal_argument t \<or> (\<not> finite_num a \<and> nonfinite_argument t))
          (m @ float_repr f @ [CR])"
    by (intro wire_with_command) simp_all
  with Inr show ?thesis
    by (simp add: and_then_lift_Inr written_write_cmd)
qed

lemma decimal_float_repr_iff:
  "decimal_argument (float_repr f) = (\<exists>sg m e. f = Finite sg m e)"
proof (cases f)
  case (Finite s m e)
  then show ?thesis by (simp add: decimal_float_repr)
next
  case (Infinity s)
  then show ?thesis
    by (simp add: float_repr.simps decimal_argument_def decimal_char_def)
next
  case NaN
  then show ?thesis
    by (simp add: float_repr.simps decimal_argument_def decimal_char_def)
qed

lemma wire_int: "m \<noteq> [] \<Longrightarrow> list_all is_upper m \<Longrightarrow> wire_text (m @ decimal_int c @ [CR])"
  by (rule wire_literal) (simp_all add: decimal_decimal_int)

lemma int_command_writes:
  assumes "m \<noteq> []" and "list_all is_upper m"
  shows "\<exists>new. written (snd (and_then (lift (str_int i)) (\<lambda>t. write_cmd (m @ t)) s))
            = written s @ new
          \<and> list_all wire_text new"
proof (cases "max_str_digits < digit_count i")
  case True
  then show ?thesis
    by (simp add: str_int_def and_then_lift_Inl)
next
  case False
  have "list_all wire_text [m @ decimal_int i @ [CR]]"
    using wire_int [OF assms] by simp
  moreover from False
  have "written (snd (and_then (lift (str_int i)) (\<lambda>t. write_cmd (m @ t)) s))
          = written s @ [m @ decimal_int i @ [CR]]"
    by (simp add: str_int_def and_then_lift_Inr written_write_cmd)
  ultimately show ?thesis
    by blast
qed

lemma setPosition_writes:
  "\<exists>new. written (snd (setPosition c s)) = written s @ new \<and> list_all wire_text new"
proof (cases "py_int c")
  case (Inl e)
  then show ?thesis by (simp add: setPosition_def and_then_lift_Inl)
next
  case (Inr i)
  have "setPosition c s = and_then (lift (str_int i)) (\<lambda>t. write_cmd (''D'' @ t)) s"
    by (simp add: setPosition_def Inr and_then_lift_Inr)
  moreover have "''D'' \<noteq> []" "list_all is_upper ''D''"
    by (simp_all add: is_upper_def)
  ultimately show ?thesis
    using int_command_writes [of "''D''" i s] by simp
qed

lemma setAngle_writes:
  "\<exists>new. written (snd (setAngle a s)) = written s @ new \<and> list_all wire_text new"
proof (cases "angle_counts a")
  case (Inl e)
  then show ?thesis by (simp add: setAngle_def and_then_lift_Inl)
next
  case (Inr i)
  with setPosition_writes [of "PyInt i" s] show ?thesis
    by (simp add: setAngle_def and_then_lift_Inr)
qed

lemma setSoftwareLimits_writes:
  "\<exists>new. written (snd (setSoftwareLimits p n s)) = written s @ new \<and> list_all wire_text new"
proof (cases "py_int p")
  case (Inl e)
  then show ?thesis by (simp add: setSoftwareLimits_def and_then_lift_Inl)
next
  case p: (Inr i)
  show ?thesis
  proof (cases "max_str_digits < digit_count i")
    case True
    with p show ?thesis
      by (simp add: setSoftwareLimits_def str_int_def and_then_lift_Inr and_then_lift_Inl)
  next
    case False
    define s1 where "s1 = s\<lparr>trace := trace s @ [Wrote (''LSPOS'' @ decimal_int i @ [CR])]\<rparr>"
    have upper: "''LSPOS'' \<noteq> []" "list_all is_upper ''LSPOS''"
      "''LSNEG'' \<noteq> []" "list_all is_upper ''LSNEG''"
      by (simp_all add: is_upper_def)
    have wp: "wire_text (''LSPOS'' @ decimal_int i @ [CR])"
      using upper by (intro wire_int)
    have w1: "written s1 = written s @ [''LSPOS'' @ decimal_int i @ [CR]]"
      unfolding s1_def by (simp add: written_trace)
    have step: "setSoftwareLimits p n s =
        and_then (lift (py_int n)) (\<lambda>n.
          and_then (lift (str_int n)) (\<lambda>u. write_cmd (''LSNEG'' @ u))) s1"
      using False unfolding s1_def
      by (simp add: setSoftwareLimits_def p str_int_def and_then_lift_Inr and_then_write_cmd)
    show ?thesis
    proof (cases "py_int n")
      case (Inl e)
      then have "written (snd (setSoftwareLimits p n s)) = written s @ [''LSPOS'' @ decimal_int i @ [CR]]"
        unfolding step by (simp add: and_then_lift_Inl w1)
      moreover have "list_all wire_text [''LSPOS'' @ decimal_int i @ [CR]]"
        using wp by simp
      ultimately show ?thesis
        by blast
    next
      case (Inr j)
      from int_command_writes [of "''LSNEG''" j s1, OF upper(3,4)] obtain new where
        n: "written (snd (and_then (lift (str_int j)) (\<lambda>t. write_cmd (''LSNEG'' @ t)) s1))
              = written s1 @ new"
        and wn: "list_all wire_text new"
        by blast
      have "written (snd (setSoftwareLimits p n s))
          = written s @ ((''LSPOS'' @ decimal_int i @ [CR]) # new)"
        unfolding step using n by (simp add: Inr and_then_lift_Inr w1)
      moreover have "list_all wire_text ((''LSPOS'' @ decimal_int i @ [CR]) # new)"
        using wp wn by simp
      ultimately show ?thesis
        by blast
    qed
  qed
qed

lemma snd_and_then_pure:
  "(\<And>v t. snd (f v t) = t) \<Longrightarrow> snd (and_then m f s) = snd (m s)"
  by (cases "m s"; cases "fst (m s)") (auto simp: and_then_def)

lemma to_degrees_state: "snd (to_degrees position s) = s"
  by (cases position; cases "num_mul (PyInt (the position)) degreesPerCount")
    (simp_all add: to_degrees_def returns_def and_then_def lift_def)

lemma getPositionError_eq:
  "getPositionError s =
     (parse_after ''TPER'' (re_sub (join [LF] (case incoming s of [] \<Rightarrow> [] | ls # rest \<Rightarrow> ls))),
      s\<lparr>trace := trace s @ [Wrote (''TPER'' @ [CR])], incoming := tl (incoming s)\<rparr>)"
  by (simp add: getPositionError_def and_then_def ask_eq lift_def)

lemma written_getPosition: "written (snd (getPosition s)) = written s @ [''TPE'' @ [CR]]"
  by (simp add: getPosition_eq written_def written_append)

lemma written_getPositionError: "written (snd (getPositionError s)) = written s @ [''TPER'' @ [CR]]"
  by (simp add: getPositionError_eq written_def written_append)

lemma written_getAngle: "written (snd (getAngle s)) = written s @ [''TPE'' @ [CR]]"
  unfolding getAngle_def
  by (simp add: snd_and_then_pure [of to_degrees, OF to_degrees_state] written_getPosition)

lemma written_getAngleError: "written (snd (getAngleError s)) = written s @ [''TPER'' @ [CR]]"
  unfolding getAngleError_def
  by (simp add: snd_and_then_pure [of to_degrees, OF to_degrees_state] written_getPositionError)

lemma written_read: "written (snd (read s)) = written s"
  by (simp add: read_eq written_def)

lemma written_isMoving: "written (snd (isMoving s)) = written s @ [''TPE'' @ [CR]]"
  by (simp add: isMoving_eq written_getPosition)

lemma written_status: "written (snd (status s)) = written s @ [''TASF'' @ [CR]]"
  unfolding status_def by (simp add: snd_and_then_returns written_ask)

lemma written_reset: "written (snd (reset s)) = written s @ [''RESET'' @ [CR]]"
  by (simp add: reset_def and_then_def write_cmd_eq sleep_def call_method_def
      lookup_setDefault written_def written_append)

lemma written_setDefaults:
  "written (snd (setDefaults s)) = written s @
     [''ECHO0'' @ [CR], ''LH0'' @ [CR], ''MA1'' @ [CR], ''MC0'' @ [CR], ''AA1.0'' @ [CR],
      ''A1.0'' @ [CR], ''V3.0'' @ [CR]]"
  by (simp add: setDefaults_eq written_def written_append)

lemma written_init:
  "written (snd (init p replies)) =
     [''ECHO0'' @ [CR], ''LH0'' @ [CR], ''MA1'' @ [CR], ''MC0'' @ [CR], ''AA1.0'' @ [CR],
      ''A1.0'' @ [CR], ''V3.0'' @ [CR]]"
  by (simp add: init_def written_setDefaults)
    (simp add: written_def Instrument_init_def SerialAdapter_def)

lemma run_writes:
  assumes nc: "\<not> caller_command op"
  shows "\<exists>new. written (snd (run op s)) = written s @ new
     \<and> list_all (wire_with (\<lambda>t. decimal_argument t \<or> (\<not> finite_args op \<and> nonfinite_argument t))) new"
proof -
  have plain: "\<And>new. list_all wire_text new \<Longrightarrow>
      list_all (wire_with (\<lambda>t. decimal_argument t \<or> (\<not> finite_args op \<and> nonfinite_argument t))) new"
    unfolding wire_text_def list_all_iff
    by (blast intro: wire_with_mono)
  have lit: "\<And>m f. written (snd (f s)) = written s @ m \<Longrightarrow> list_all wire_text m \<Longrightarrow>
      \<exists>new. written (snd (f s)) = written s @ new
        \<and> list_all (wire_with (\<lambda>t. decimal_argument t \<or> (\<not> finite_args op \<and> nonfinite_argument t))) new"
    using plain by blast
  have ex: "\<And>f. \<exists>new. written (snd (f s)) = written s @ new \<and> list_all wire_text new \<Longrightarrow>
      \<exists>new. written (snd (f s)) = written s @ new
        \<and> list_all (wire_with (\<lambda>t. decimal_argument t \<or> (\<not> finite_args op \<and> nonfinite_argument t))) new"
    using plain by blast
  show ?thesis
  proof (cases op)
    case Reset
    then show ?thesis
      using lit [of reset, OF written_reset] by (simp add: wire_texts)
  next
    case Enable
    then show ?thesis
      using lit [of enable "[''DRIVE1'' @ [CR]]"]
      by (simp add: enable_def written_write_cmd wire_texts)
  next
    case Disable
    then show ?thesis
      using lit [of disable "[''DRIVE0'' @ [CR]]"]
      by (simp add: disable_def written_write_cmd wire_texts)
  next
    case Status
    then show ?thesis
      using lit [of "call_stmt status" "[''TASF'' @ [CR]]"]
      by (simp add: snd_call_stmt written_status wire_texts)
  next
    case IsMoving
    then show ?thesis
      using lit [of "call_stmt isMoving" "[''TPE'' @ [CR]]"]
      by (simp add: snd_call_stmt written_isMoving wire_texts)
  next
    case GetAngle
    then show ?thesis
      using lit [of "call_stmt getAngle" "[''TPE'' @ [CR]]"]
      by (simp add: snd_call_stmt written_getAngle wire_texts)
  next
    case GetAngleError
    then show ?thesis
      using lit [of "call_stmt getAngleError" "[''TPER'' @ [CR]]"]
      by (simp add: snd_call_stmt written_getAngleError wire_texts)
  next
    case (SetAngle a)
    then show ?thesis
      using ex [of "setAngle a", OF setAngle_writes] by simp
  next
    case GetPosition
    then show ?thesis
      using lit [of "call_stmt getPosition" "[''TPE'' @ [CR]]"]
      by (simp add: snd_call_stmt written_getPosition wire_texts)
  next
    case GetPositionError
    then show ?thesis
      using lit [of "call_stmt getPositionError" "[''TPER'' @ [CR]]"]
      by (simp add: snd_call_stmt written_getPositionError wire_texts)
  next
    case (SetPosition c)
    then show ?thesis
      using ex [of "setPosition c", OF setPosition_writes] by simp
  next
    case Move
    then show ?thesis
      using lit [of move "[''GO'' @ [CR]]"]
      by (simp add: move_def written_write_cmd wire_texts)
  next
    case Stop
    then show ?thesis
      using lit [of stop "[''S'' @ [CR]]"]
      by (simp add: stop_def written_write_cmd wire_texts)
  next
    case Kill
    then show ?thesis
      using lit [of kill "[''K'' @ [CR]]"]
      by (simp add: kill_def written_write_cmd wire_texts)
  next
    case SetAbsolutePosition
    then show ?thesis
      using lit [of setAbsolutePosition "[''MA1'' @ [CR], ''MC0'' @ [CR]]"]
      by (simp add: setAbsolutePosition_def and_then_write_cmd write_cmd_eq written_def
          written_append wire_texts)
  next
    case SetRelativePosition
    then show ?thesis
      using lit [of setRelativePosition "[''MA0'' @ [CR], ''MC0'' @ [CR]]"]
      by (simp add: setRelativePosition_def and_then_write_cmd write_cmd_eq written_def
          written_append wire_texts)
  next
    case (SetHardwareLimits b)
    then show ?thesis
      using lit [of "setHardwareLimits b" "[''LH1'' @ [CR]]"]
        lit [of "setHardwareLimits b" "[''LH0'' @ [CR]]"]
      by (simp add: setHardwareLimits_def written_write_cmd wire_texts)
  next
    case (SetSoftwareLimits p n)
    then show ?thesis
      using ex [of "setSoftwareLimits p n", OF setSoftwareLimits_writes] by simp
  next
    case (SetEcho b)
    then show ?thesis
      using lit [of "setEcho b" "[''ECHO1'' @ [CR]]"] lit [of "setEcho b" "[''ECHO0'' @ [CR]]"]
      by (simp add: setEcho_def written_write_cmd wire_texts)
  next
    case (SetAcceleration a)
    then show ?thesis
      using float_setter_writes [of "''A''" a s]
      by (simp add: setAcceleration_def is_upper_def)
  next
    case (SetAverageAcceleration a)
    then show ?thesis
      using float_setter_writes [of "''AA''" a s]
      by (simp add: setAverageAcceleration_def is_upper_def)
  next
    case (SetVelocity v)
    then show ?thesis
      using float_setter_writes [of "''V''" v s]
      by (simp add: setVelocity_def is_upper_def)
  next
    case SetDefaults
    then show ?thesis
      using lit [of setDefaults, OF written_setDefaults] by (simp add: wire_texts)
  next
    case (Write c)
    with nc show ?thesis by simp
  next
    case (Ask c)
    with nc show ?thesis by simp
  next
    case Read
    then show ?thesis
      by (simp add: snd_call_stmt written_read)
  qed
qed

lemma run_caller_command:
  "written (snd (run (Write c) s)) = written s @ [c @ [CR]]"
  "written (snd (run (Ask c) s)) = written s @ [c @ [CR]]"
  by (simp_all add: snd_call_stmt written_write_cmd written_ask)

lemma run_float_setters:
  "written (snd (run (SetAcceleration (PyFloat f)) s)) = written s @ [''A'' @ float_repr f @ [CR]]"
  "written (snd (run (SetAverageAcceleration (PyFloat f)) s)) = written s @ [''AA'' @ float_repr f @ [CR]]"
  "written (snd (run (SetVelocity (PyFloat f)) s)) = written s @ [''V'' @ float_repr f @ [CR]]"
  by (simp_all add: setAcceleration_def setAverageAcceleration_def setVelocity_def py_float_def
      and_then_lift_Inr written_write_cmd)

lemma float_repr_nonfinite:
  "float_repr (Infinity False) = ''inf''" "float_repr (Infinity True) = ''-inf''"
  "float_repr NaN = ''nan''"
  by (simp_all add: float_repr.simps)

lemma run_ends_with_CR:
  "\<exists>new. written (snd (run op s)) = written s @ new
     \<and> list_all ends_with_CR new
     \<and> (\<not> caller_command op \<longrightarrow> list_all wire_text_any new)
     \<and> (\<not> caller_command op \<and> finite_args op \<longrightarrow> list_all wire_text new)"
proof (cases "caller_command op")
  case True
  then obtain c where "op = Write c \<or> op = Ask c"
    by (cases op) simp_all
  then have "written (snd (run op s)) = written s @ [c @ [CR]]"
    using run_caller_command [of c s] by blast
  moreover have "list_all ends_with_CR [c @ [CR]]"
    by (simp add: ends_with_CR_def)
  ultimately show ?thesis
    using True by blast
next
  case False
  from run_writes [OF False, of s] obtain new where w: "written (snd (run op s)) = written s @ new"
    and q: "list_all (wire_with (\<lambda>t. decimal_argument t \<or> (\<not> finite_args op \<and> nonfinite_argument t))) new"
    by blast
  from q have e: "list_all ends_with_CR new"
    unfolding list_all_iff wire_with_def ends_with_CR_def by blast
  from q have any: "list_all wire_text_any new"
    unfolding wire_text_any_def list_all_iff by (blast intro: wire_with_mono)
  from q have fin: "finite_args op \<longrightarrow> list_all wire_text new"
    unfolding wire_text_def list_all_iff by (blast intro: wire_with_mono)
  from w e any fin show ?thesis
    by blast
qed

text \<open>
  C9, as amended. Whatever operation runs, with whatever arguments, each text it
  writes ends with the carriage return that \<^verbatim>\<open>write\<close> appends to a command. For
  \<^verbatim>\<open>write(command)\<close> and \<^verbatim>\<open>ask(command)\<close> the command is the text of the caller, as it
  is. For every other operation (\<^verbatim>\<open>read\<close>, which writes nothing, and the operations
  from \<^verbatim>\<open>reset\<close> to \<^verbatim>\<open>setDefaults\<close>) the command is a mnemonic of capital letters
  followed by its argument, and the carriage return at the end is the only one in the
  text; the argument is decimal (digits, signs, a point, an exponent mark) when the
  numbers passed are integers or finite floats. \<^verbatim>\<open>setAcceleration\<close>,
  \<^verbatim>\<open>setAverageAcceleration\<close> and \<^verbatim>\<open>setVelocity\<close> called with a float \<open>f\<close> write A, AA
  and V followed by \<^verbatim>\<open>str(f)\<close>, which is decimal exactly when \<open>f\<close> is finite and is inf,
  -inf or nan for the infinities and NaN. The texts the constructor writes have the
  decimal shape.
\<close>

theorem written_texts_end_with_CR:
  "(\<exists>new. written (snd (run op s)) = written s @ new
       \<and> list_all ends_with_CR new
       \<and> (\<not> caller_command op \<longrightarrow> list_all wire_text_any new)
       \<and> (\<not> caller_command op \<and> finite_args op \<longrightarrow> list_all wire_text new))
   \<and> written (snd (run (Write c) s)) = written s @ [c @ [CR]]
   \<and> written (snd (run (Ask c) s)) = written s @ [c @ [CR]]
   \<and> written (snd (run Read s)) = written s
   \<and> written (snd (run (SetAcceleration (PyFloat f)) s)) = written s @ [''A'' @ float_repr f @ [CR]]
   \<and> written (snd (run (SetAverageAcceleration (PyFloat f)) s))
       = written s @ [''AA'' @ float_repr f @ [CR]]
   \<and> written (snd (run (SetVelocity (PyFloat f)) s)) = written s @ [''V'' @ float_repr f @ [CR]]
   \<and> decimal_argument (float_repr f) = (\<exists>sg m e. f = Finite sg m e)
   \<and> float_repr (Infinity False) = ''inf''
   \<and> float_repr (Infinity True) = ''-inf''
   \<and> float_repr NaN = ''nan''
   \<and> list_all wire_text (written (snd (init p replies)))"
proof -
  have i: "list_all wire_text (written (snd (init p replies)))"
    by (simp add: written_init wire_texts)
  have r: "written (snd (run Read s)) = written s"
    by (simp add: snd_call_stmt written_read)
  from run_ends_with_CR [of op s] run_caller_command [of c s] r run_float_setters [of f s]
    decimal_float_repr_iff [of f] float_repr_nonfinite i
  show ?thesis
    by (intro conjI)
qed

theorem written_texts_end_with_CR_witness:
  "\<exists>new. written (snd (run (SetSoftwareLimits (PyInt 100) (PyInt (- 50))) fresh))
            = written fresh @ new
        \<and> list_all ends_with_CR new \<and> list_all wire_text_any new \<and> list_all wire_text new"
  using written_texts_end_with_CR
    [of "SetSoftwareLimits (PyInt 100) (PyInt (- 50))" fresh "[]" NaN "[]" "[]"]
  by (simp only: caller_command.simps finite_args.simps finite_num.simps) blast

text \<open>
  C9, as the claim states it, fails: \<^verbatim>\<open>setVelocity(float('inf'))\<close> writes
  \<^verbatim>\<open>Vinf\r\<close>, whose argument is no decimal numeral.
\<close>

theorem nonfinite_velocity_is_written:
  "written (snd (run (SetVelocity (PyFloat (Infinity False))) fresh)) = [''Vinf'' @ [CR]]
   \<and> \<not> wire_text (''Vinf'' @ [CR])"
proof -
  have "written (snd (run (SetVelocity (PyFloat (Infinity False))) fresh)) = [''Vinf'' @ [CR]]"
    by (simp add: setVelocity_def py_float_def and_then_lift_Inr float_repr.simps
        written_write_cmd written_fresh)
  moreover have "\<not> wire_text (''Vinf'' @ [CR])"
    by (simp add: wire_text_def wire_with_def command_with_def is_upper_def
        decimal_argument_def decimal_char_def)
  ultimately show ?thesis by (rule conjI)
qed

end
